theory Spec2Isabelle
  imports Complex_Main "HOL-Library.Word" "HOL-Library.Multiset"
begin

section \<open>combine\_dseg.py: relabelling a discrete segmentation volume\<close>

text \<open>
  The development embeds the function \<open>combine_dseg_labels\<close> of \<^verbatim>\<open>src/combine_dseg.py\<close>:
  the construction of the dictionary from original to new labels (lines 111 to 129), the
  choice of the output dtype (lines 131 to 141), the loop that writes the new labels into
  the output array (lines 143 to 150) and the function as a whole, with the arrays it
  reads and writes held in an explicit store.
\<close>

subsection \<open>Python values that occur as labels\<close>

text \<open>
  The code does three things with a label \<open>lab\<close> it is handed: it converts it with
  \<open>int(lab)\<close>, it asks whether \<open>lab in mapping\<close> for a dictionary whose keys are Python
  ints, and it reads \<open>mapping[lab]\<close>. A label is therefore modelled by the kind of value
  it is, as far as these operations tell values apart:
  \<^item> \<open>PyInt n\<close>: the int \<open>n\<close> (a bool or a NumPy integer behaves the same);
  \<^item> \<open>PyFloat q\<close>: a finite float whose exact value is the rational \<open>q\<close>;
  \<^item> \<open>PyStr n\<close>: a str that \<open>int()\<close> parses to \<open>n\<close>, such as \<^verbatim>\<open>"17"\<close> for \<open>n = 17\<close>;
  \<^item> \<open>PyOther k\<close>: any value that \<open>int()\<close> rejects, with the int it is equal to, if there
    is one: \<^verbatim>\<open>None\<close>, \<^verbatim>\<open>"abc"\<close> and nan are equal to no int (\<open>k = None\<close>), the complex
    \<^verbatim>\<open>2+0j\<close> is equal to 2 (\<open>k = Some 2\<close>).
\<close>

datatype pyval = PyInt int | PyFloat rat | PyStr int | PyOther "int option"

datatype error =
    LabelNotCoercible  \<comment> \<open>\<open>int(lab)\<close> or \<open>int(new_label)\<close> raised ValueError or TypeError\<close>
  | StoreOverflow      \<comment> \<open>NumPy raised OverflowError converting a new label to the dtype\<close>
  | BadInputType       \<comment> \<open>the TypeError of line 107\<close>
  | LoadFailed         \<comment> \<open>\<open>nib.load\<close> raised\<close>
  | SaveFailed         \<comment> \<open>\<open>os.makedirs\<close> or \<open>nib.save\<close> raised\<close>

text \<open>\<open>int(v)\<close>: a float is truncated towards zero.\<close>

fun py_int :: "pyval \<Rightarrow> error + int" where
  "py_int (PyInt n) = Inr n"
| "py_int (PyFloat q) = Inr (if q < 0 then \<lceil>q\<rceil> else \<lfloor>q\<rfloor>)"
| "py_int (PyStr n) = Inr n"
| "py_int (PyOther k) = Inl LabelNotCoercible"

text \<open>
  The int key a value is equal to (with the same hash), if there is one: \<open>2.0 == 2\<close>, but
  neither \<open>2.5\<close> nor \<^verbatim>\<open>"2"\<close> equals any int.
\<close>

fun py_key :: "pyval \<Rightarrow> int option" where
  "py_key (PyInt n) = Some n"
| "py_key (PyFloat q) = (if of_int \<lfloor>q\<rfloor> = q then Some \<lfloor>q\<rfloor> else None)"
| "py_key (PyStr n) = None"
| "py_key (PyOther k) = k"

subsection \<open>The dictionary \<open>mapping\<close>\<close>

text \<open>
  A Python dict keeps its keys in insertion order, and \<open>mapping.items()\<close> is iterated in
  that order by the loop of line 147: the dictionary is an association list with distinct
  keys. \<open>mapping[k] = v\<close> replaces the value of a key that is present, in place, and appends
  a new key at the end.
\<close>

type_synonym label_map = "(int \<times> int) list"

fun dict_set :: "int \<Rightarrow> int \<Rightarrow> label_map \<Rightarrow> label_map" where
  "dict_set k v [] = [(k, v)]"
| "dict_set k v ((k', v') # m) =
     (if k' = k then (k, v) # m else (k', v') # dict_set k v m)"

text \<open>\<open>lab in mapping\<close> and, when it holds, \<open>mapping[lab]\<close>, for a label as handed in.\<close>

definition dict_find :: "label_map \<Rightarrow> pyval \<Rightarrow> (int \<times> int) option" where
  "dict_find m lab =
     (case py_key lab of None \<Rightarrow> None
      | Some k \<Rightarrow> (case map_of m k of None \<Rightarrow> None | Some t \<Rightarrow> Some (k, t)))"

subsection \<open>Building the mapping (lines 111 to 129)\<close>

text \<open>
  A warning is recorded as the pair of the label and the new label it is already mapped
  to, the two values the message of lines 117 and 127 prints. \<open>warnings.warn\<close> is modelled
  as appending to the list of warnings; the loop goes on after it.
\<close>

type_synonym warning = "int \<times> int"
type_synonym build_state = "label_map \<times> warning list"

datatype groups =
    GroupSeq "pyval list list"             \<comment> \<open>a sequence of groups of original labels\<close>
  | GroupMap "(pyval \<times> pyval list) list"   \<comment> \<open>\<open>groups.items()\<close> of a Mapping, in its order\<close>

text \<open>Lines 124 to 129: the labels of one group, for the new label of the group.\<close>

fun seq_group :: "int \<Rightarrow> pyval list \<Rightarrow> build_state \<Rightarrow> error + build_state" where
  "seq_group new_label [] st = Inr st"
| "seq_group new_label (lab # grp) (m, ws) =
     (case py_int lab of
        Inl e \<Rightarrow> Inl e
      | Inr l \<Rightarrow>
          (case map_of m l of
             Some t \<Rightarrow> seq_group new_label grp (m, ws @ [(l, t)])
           | None \<Rightarrow> seq_group new_label grp (dict_set l new_label m, ws)))"

text \<open>Lines 122 and 123: \<open>enumerate(groups)\<close>, from index \<open>idx\<close> on.\<close>

fun seq_groups :: "int \<Rightarrow> nat \<Rightarrow> pyval list list \<Rightarrow> build_state \<Rightarrow> error + build_state" where
  "seq_groups start_label idx [] st = Inr st"
| "seq_groups start_label idx (grp # gs) st =
     (case seq_group (start_label + int idx) grp st of
        Inl e \<Rightarrow> Inl e
      | Inr st' \<Rightarrow> seq_groups start_label (Suc idx) gs st')"

text \<open>
  Lines 115 to 119: the membership test is made on \<open>lab\<close> as handed in; \<open>int(new_label)\<close>
  and then \<open>int(lab)\<close> are evaluated only when the assignment of line 119 is reached.
\<close>

fun map_entry :: "pyval \<Rightarrow> pyval list \<Rightarrow> build_state \<Rightarrow> error + build_state" where
  "map_entry new_label [] st = Inr st"
| "map_entry new_label (lab # originals) (m, ws) =
     (case dict_find m lab of
        Some w \<Rightarrow> map_entry new_label originals (m, ws @ [w])
      | None \<Rightarrow>
          (case py_int new_label of
             Inl e \<Rightarrow> Inl e
           | Inr v \<Rightarrow>
               (case py_int lab of
                  Inl e \<Rightarrow> Inl e
                | Inr l \<Rightarrow> map_entry new_label originals (dict_set l v m, ws))))"

fun map_entries :: "(pyval \<times> pyval list) list \<Rightarrow> build_state \<Rightarrow> error + build_state" where
  "map_entries [] st = Inr st"
| "map_entries ((new_label, originals) # es) st =
     (case map_entry new_label originals st of
        Inl e \<Rightarrow> Inl e
      | Inr st' \<Rightarrow> map_entries es st')"

definition build_mapping :: "groups \<Rightarrow> int \<Rightarrow> error + build_state" where
  "build_mapping gr start_label =
     (case gr of
        GroupMap es \<Rightarrow> map_entries es ([], [])
      | GroupSeq gs \<Rightarrow> seq_groups start_label 0 gs ([], []))"

subsection \<open>Choosing the output dtype (lines 131 to 141)\<close>

text \<open>
  The dtypes of NumPy: the signed and the unsigned integer dtypes, and any other dtype (a
  float dtype, say) by its name.
\<close>

datatype np_dtype =
    Int8 | Int16 | Int32 | Int64
  | UInt8 | UInt16 | UInt32 | UInt64
  | OtherDtype string

text \<open>\<open>max(mapping.values())\<close> of a dictionary that is not empty.\<close>

fun py_max :: "int list \<Rightarrow> int" where
  "py_max [] = 0"
| "py_max (v # vs) = fold max vs v"

definition int8_max :: int where "int8_max = 127"
definition int16_max :: int where "int16_max = 32767"
definition int32_max :: int where "int32_max = 2147483647"

definition needed_max :: "label_map \<Rightarrow> bool \<Rightarrow> int" where
  "needed_max mapping preserve_zero =
     (let max_new = (if mapping \<noteq> [] then py_max (map snd mapping) else 0);
          reserve = (if preserve_zero then 1 else 0)
      in max max_new reserve)"

definition select_dtype :: "label_map \<Rightarrow> bool \<Rightarrow> np_dtype option \<Rightarrow> np_dtype" where
  "select_dtype mapping preserve_zero out_dtype =
     (case out_dtype of
        Some d \<Rightarrow> d
      | None \<Rightarrow>
          if needed_max mapping preserve_zero \<le> int8_max then Int8
          else if needed_max mapping preserve_zero \<le> int16_max then Int16
          else Int32)"

subsection \<open>Arrays, images and the store\<close>

text \<open>
  After line 109 the voxel array \<open>data\<close> holds 32-bit signed integers. Arrays are
  flattened: an array is the list of its elements in a fixed order of the voxels, and its
  shape is the length of the list. An element of any other array (the array an image
  holds, the output array) is a value of a type \<open>'v\<close> with a zero, the value \<open>np.zeros\<close>
  fills an array with.

  Arrays live in a store, so that the assignment of line 150 is an update in place of the
  array at one address, and a new array is a new address.
\<close>

type_synonym int32 = "32 word"
type_synonym addr = nat

record 'v heap =
  cells :: "addr \<Rightarrow> 'v list"
  next_addr :: addr

definition heap_alloc :: "'v list \<Rightarrow> 'v heap \<Rightarrow> addr \<times> 'v heap" where
  "heap_alloc xs h =
     (next_addr h, h\<lparr>cells := (cells h)(next_addr h := xs), next_addr := Suc (next_addr h)\<rparr>)"

definition heap_write :: "addr \<Rightarrow> 'v list \<Rightarrow> 'v heap \<Rightarrow> 'v heap" where
  "heap_write a xs h = h\<lparr>cells := (cells h)(a := xs)\<rparr>"

text \<open>
  A NIfTI image, as far as the function uses it: the array of its voxels, the affine and
  the header. Of the header the field of the data dtype is modelled, which
  \<open>set_data_dtype\<close> overwrites, and the spatial fields (dimensions, voxel sizes, qform and
  sform) as one value of a type \<open>'s\<close>.
\<close>

record 's nifti_header =
  data_dtype :: np_dtype
  spatial :: 's

record ('a, 's) nifti =
  dataobj :: addr
  affine :: 'a
  header :: "'s nifti_header"

datatype ('a, 's) dseg_input =
    DsegPath string
  | DsegImage "('a, 's) nifti"
  | DsegOther  \<comment> \<open>neither a str nor a Nifti1Image\<close>

text \<open>
  A 32-bit float: a finite value, given by the rational it is, an infinity or nan.
\<close>

datatype float32 = F32 rat | F32PosInf | F32NegInf | F32NaN

text \<open>
  What nibabel, NumPy and the file system do is a parameter of the model:
  \<^item> \<open>nib_load\<close>: \<open>nib.load(path)\<close>, which may raise;
  \<^item> \<open>nib_save\<close>: whether creating the directory of a path and \<open>nib.save\<close> to it succeed;
  \<^item> \<open>get_fdata\<close>: the 32-bit float that \<open>get_fdata(dtype=np.float32)\<close> makes of one stored
    voxel value, under the scaling of the header;
  \<^item> \<open>cast_invalid\<close>: what \<open>astype(np.int32)\<close> gives for a float that has no 32-bit
    integer part (nan, an infinity, a value beyond the range), where the conversion of C
    is undefined and the result is the platform's;
  \<^item> \<open>np_store\<close>: the element of an array of the given dtype that NumPy makes of the Python
    int assigned to it, \<open>None\<close> when NumPy raises OverflowError instead.
\<close>

record ('v, 'a, 's) lib =
  nib_load :: "string \<Rightarrow> 'v heap \<Rightarrow> error + (('a, 's) nifti \<times> 'v heap)"
  nib_save :: "string \<Rightarrow> bool"
  get_fdata :: "'s nifti_header \<Rightarrow> 'v \<Rightarrow> float32"
  cast_invalid :: "float32 \<Rightarrow> int32"
  np_store :: "np_dtype \<Rightarrow> int \<Rightarrow> 'v option"

text \<open>
  Line 109, for one voxel. \<open>astype(np.int32)\<close> of a float truncates it towards zero.
\<close>

definition astype_int32 :: "('v, 'a, 's) lib \<Rightarrow> float32 \<Rightarrow> int32" where
  "astype_int32 l x =
     (case x of
        F32 q \<Rightarrow>
          (let t = (if q < 0 then \<lceil>q\<rceil> else \<lfloor>q\<rfloor>)
           in if - 2147483648 \<le> t \<and> t \<le> 2147483647 then word_of_int t else cast_invalid l x)
      | _ \<Rightarrow> cast_invalid l x)"

definition to_int32 :: "('v, 'a, 's) lib \<Rightarrow> 's nifti_header \<Rightarrow> 'v \<Rightarrow> int32" where
  "to_int32 l hdr v = astype_int32 l (get_fdata l hdr v)"

text \<open>Lines 102 to 107.\<close>

definition load_input ::
  "('v, 'a, 's) lib \<Rightarrow> ('a, 's) dseg_input \<Rightarrow> 'v heap \<Rightarrow> error + (('a, 's) nifti \<times> 'v heap)" where
  "load_input l dseg_input h =
     (case dseg_input of
        DsegPath p \<Rightarrow> nib_load l p h
      | DsegImage img \<Rightarrow> Inr (img, h)
      | DsegOther \<Rightarrow> Inl BadInputType)"

subsection \<open>Applying the mapping (lines 143 to 150)\<close>

text \<open>\<open>out[data == orig_label] = x\<close>, on the elements of \<open>out\<close>.\<close>

definition assign_masked :: "int32 list \<Rightarrow> int \<Rightarrow> 'v \<Rightarrow> 'v list \<Rightarrow> 'v list" where
  "assign_masked data orig_label x out =
     map2 (\<lambda>d y. if sint d = orig_label then x else y) data out"

text \<open>
  The loop of lines 147 to 150 over \<open>mapping.items()\<close>. The array \<open>out\<close> is the one at
  address \<open>out\<close> of the store. NumPy converts \<open>new_label\<close> to the dtype of \<open>out\<close> before it
  looks at the mask.
\<close>

fun apply_mapping ::
  "('v, 'a, 's) lib \<Rightarrow> np_dtype \<Rightarrow> bool \<Rightarrow> label_map \<Rightarrow> int32 list \<Rightarrow> addr \<Rightarrow> 'v heap
     \<Rightarrow> error + 'v heap" where
  "apply_mapping l dt preserve_zero [] data out h = Inr h"
| "apply_mapping l dt preserve_zero ((orig_label, new_label) # rest) data out h =
     (if orig_label = 0 \<and> preserve_zero
      then apply_mapping l dt preserve_zero rest data out h
      else (case np_store l dt new_label of
              None \<Rightarrow> Inl StoreOverflow
            | Some x \<Rightarrow>
                apply_mapping l dt preserve_zero rest data out
                  (heap_write out (assign_masked data orig_label x (cells h out)) h)))"

subsection \<open>The function \<open>combine_dseg_labels\<close>\<close>

text \<open>
  The function returns the new image; the model returns with it the warnings emitted and
  the path the image was saved to, if any, and the store after the call.
\<close>

record ('a, 's) result =
  image :: "('a, 's) nifti"
  warnings :: "warning list"
  saved :: "string option"

text \<open>Lines 157 to 161: \<open>if output_path\<close> holds of a path that is neither None nor empty.\<close>

definition save_output :: "('v, 'a, 's) lib \<Rightarrow> string option \<Rightarrow> error + string option" where
  "save_output l output_path =
     (case output_path of
        None \<Rightarrow> Inr None
      | Some p \<Rightarrow>
          if p = [] then Inr None
          else if nib_save l p then Inr (Some p) else Inl SaveFailed)"

definition combine_dseg_labels ::
  "('v::zero, 'a, 's) lib \<Rightarrow> ('a, 's) dseg_input \<Rightarrow> groups \<Rightarrow> string option \<Rightarrow> int \<Rightarrow> bool
     \<Rightarrow> np_dtype option \<Rightarrow> 'v heap \<Rightarrow> error + (('a, 's) result \<times> 'v heap)" where
  "combine_dseg_labels l dseg_input gr output_path start_label preserve_zero out_dtype h =
     (case load_input l dseg_input h of
        Inl e \<Rightarrow> Inl e
      | Inr (img, h0) \<Rightarrow>
          let data = map (to_int32 l (header img)) (cells h0 (dataobj img)) in
          (case build_mapping gr start_label of
             Inl e \<Rightarrow> Inl e
           | Inr (mapping, ws) \<Rightarrow>
               let dt = select_dtype mapping preserve_zero out_dtype;
                   (out, h1) = heap_alloc (replicate (length data) 0) h0
               in (case apply_mapping l dt preserve_zero mapping data out h1 of
                     Inl e \<Rightarrow> Inl e
                   | Inr h2 \<Rightarrow>
                       let new_img = \<lparr>dataobj = out, affine = affine img,
                                      header = (header img)\<lparr>data_dtype := dt\<rparr>\<rparr>
                       in (case save_output l output_path of
                             Inl e \<Rightarrow> Inl e
                           | Inr sv \<Rightarrow>
                               Inr (\<lparr>image = new_img, warnings = ws, saved = sv\<rparr>, h2)))))"

subsection \<open>Notions the statements below are written in\<close>

text \<open>
  The pairs of the mapping that the loop of line 147 does not skip: all of them, but the
  pair of key 0 when \<open>preserve_zero\<close> is set.
\<close>

definition active :: "bool \<Rightarrow> label_map \<Rightarrow> label_map" where
  "active preserve_zero m = filter (\<lambda>(k, v). \<not> (k = 0 \<and> preserve_zero)) m"

text \<open>
  The array the loop leaves behind, from the array \<open>ys\<close> it starts on: an element whose
  voxel matches a key of an active pair holds the new label of the last such pair, as
  NumPy stores it, and any other element is as it was.
\<close>

definition relabelled ::
  "('v, 'a, 's) lib \<Rightarrow> np_dtype \<Rightarrow> bool \<Rightarrow> label_map \<Rightarrow> int32 list \<Rightarrow> 'v list \<Rightarrow> 'v list" where
  "relabelled l dt preserve_zero m data ys =
     map2 (\<lambda>d y. case map_of (rev (active preserve_zero m)) (sint d) of
                    None \<Rightarrow> y
                  | Some v \<Rightarrow> the (np_store l dt v)) data ys"

text \<open>
  The three signed widths the spec names, with their maxima, and what it is for one of
  them to be the smallest whose maximum is at least \<open>needed\<close>.
\<close>

definition candidates :: "(np_dtype \<times> int) list" where
  "candidates = [(Int8, 127), (Int16, 32767), (Int32, 2147483647)]"

definition smallest_fitting :: "int \<Rightarrow> np_dtype \<Rightarrow> bool" where
  "smallest_fitting needed d =
     (case map_of candidates d of
        None \<Rightarrow> False
      | Some mx \<Rightarrow> needed \<le> mx \<and> list_all (\<lambda>(d', mx'). needed \<le> mx' \<longrightarrow> mx \<le> mx') candidates)"

text \<open>
  The claims that the groups make, in the order in which the loops meet them, as pairs of
  the original label and the new label claimed for it: group \<open>i\<close> of a sequence claims its
  labels for \<open>start_label + i\<close>, an entry of a mapping claims its labels for its key.
\<close>

definition seq_claims :: "int \<Rightarrow> nat \<Rightarrow> int list list \<Rightarrow> (int \<times> int) list" where
  "seq_claims start_label idx gs =
     concat (map (\<lambda>(i, g). map (\<lambda>lab. (lab, start_label + int i)) g) (enumerate idx gs))"

definition map_claims :: "(int \<times> int list) list \<Rightarrow> (int \<times> int) list" where
  "map_claims es = concat (map (\<lambda>(new_label, g). map (\<lambda>lab. (lab, new_label)) g) es)"

text \<open>
  First assignment wins: the claims at a position where the label was claimed at an
  earlier position, each with the new label of the first claim of that label.
\<close>

definition conflicts :: "(int \<times> int) list \<Rightarrow> warning list" where
  "conflicts cs =
     [(fst (cs ! j), the (map_of cs (fst (cs ! j)))).
        j \<leftarrow> [0..<length cs], fst (cs ! j) \<in> fst ` set (take j cs)]"

text \<open>A label is claimed by more than one group.\<close>

definition claimed_by_many :: "int list list \<Rightarrow> int \<Rightarrow> bool" where
  "claimed_by_many gs lab = (1 < length (filter (\<lambda>g. lab \<in> set g) gs))"

text \<open>The loop over claims whose labels are ints already.\<close>

fun first_wins :: "(int \<times> int) list \<Rightarrow> build_state \<Rightarrow> build_state" where
  "first_wins [] st = st"
| "first_wins ((lab, new_label) # cs) (m, ws) =
     (case map_of m lab of
        Some t \<Rightarrow> first_wins cs (m, ws @ [(lab, t)])
      | None \<Rightarrow> first_wins cs (dict_set lab new_label m, ws))"

subsection \<open>An instance of the parameters\<close>

text \<open>
  To run the model on concrete inputs: the stored voxel values are ints, read unscaled, so
  that \<open>get_fdata\<close> rounds each to the nearest 32-bit float (24 bits of precision, ties to
  even); a float with no 32-bit integer part is cast to \<open>-2147483648\<close>, as on x86-64; NumPy
  stores an int that is in the range of an integer dtype and raises on any other, as
  NumPy 2 does, and a dtype that is not an integer dtype is taken to hold every label it
  is given; no file can be loaded, any file can be saved.
\<close>

text \<open>The number of low bits that a 24-bit significand drops from \<open>a\<close>.\<close>

function f32_shift :: "int \<Rightarrow> nat" where
  "f32_shift a = (if a < 16777216 then 0 else Suc (f32_shift (a div 2)))"
  by pat_completeness auto
termination
  by (relation "measure nat") auto

declare f32_shift.simps [simp del]

definition f32_of_int :: "int \<Rightarrow> float32" where
  "f32_of_int v =
     (let a = \<bar>v\<bar>; e = f32_shift a; q = a div 2 ^ e; r = a mod 2 ^ e;
          w = (if 2 ^ e < 2 * r \<or> (2 * r = 2 ^ e \<and> odd q) then q + 1 else q) * 2 ^ e
      in if 340282346638528859811704183484516925440 < w
         then (if v < 0 then F32NegInf else F32PosInf)
         else F32 (of_int (if v < 0 then - w else w)))"

definition np2_store :: "np_dtype \<Rightarrow> int \<Rightarrow> int option" where
  "np2_store dt x =
     (case dt of
        Int8 \<Rightarrow> if - 128 \<le> x \<and> x \<le> 127 then Some x else None
      | Int16 \<Rightarrow> if - 32768 \<le> x \<and> x \<le> 32767 then Some x else None
      | Int32 \<Rightarrow> if - 2147483648 \<le> x \<and> x \<le> 2147483647 then Some x else None
      | Int64 \<Rightarrow> if - 9223372036854775808 \<le> x \<and> x \<le> 9223372036854775807 then Some x else None
      | UInt8 \<Rightarrow> if 0 \<le> x \<and> x \<le> 255 then Some x else None
      | UInt16 \<Rightarrow> if 0 \<le> x \<and> x \<le> 65535 then Some x else None
      | UInt32 \<Rightarrow> if 0 \<le> x \<and> x \<le> 4294967295 then Some x else None
      | UInt64 \<Rightarrow> if 0 \<le> x \<and> x \<le> 18446744073709551615 then Some x else None
      | OtherDtype s \<Rightarrow> Some x)"

definition lib0 :: "(int, unit, unit) lib" where
  "lib0 = \<lparr>nib_load = (\<lambda>p h. Inl LoadFailed), nib_save = (\<lambda>p. True),
           get_fdata = (\<lambda>hdr v. f32_of_int v), cast_invalid = (\<lambda>x. - 2147483648),
           np_store = np2_store\<rparr>"

definition heap0 :: "int heap" where
  "heap0 = \<lparr>cells = (\<lambda>a. if a = 0 then [0, 17, 53, 4] else []), next_addr = 1\<rparr>"

definition img0 :: "(unit, unit) nifti" where
  "img0 = \<lparr>dataobj = 0, affine = (), header = \<lparr>data_dtype = Int16, spatial = ()\<rparr>\<rparr>"

text \<open>
  A call on the volume \<open>[0, 17, 53, 4]\<close> with the grouping \<open>{1: [17, 53], 5: [0]}\<close>, and
  the result and the store it returns.
\<close>

definition groups0 :: groups where
  "groups0 = GroupMap [(PyInt 1, [PyInt 17, PyInt 53]), (PyInt 5, [PyInt 0])]"

definition heap1 :: "int heap" where
  "heap1 = \<lparr>cells = (cells heap0)(1 := [0, 1, 1, 0]), next_addr = 2\<rparr>"

definition res0 :: "(unit, unit) result" where
  "res0 = \<lparr>image = \<lparr>dataobj = 1, affine = (),
                     header = \<lparr>data_dtype = Int8, spatial = ()\<rparr>\<rparr>,
           warnings = [], saved = None\<rparr>"




section \<open>Properties\<close>

subsection \<open>The store\<close>

lemma heap_write_same: "heap_write a (cells h a) h = h"
  by (simp add: heap_write_def)

lemma heap_write_twice: "heap_write a ys (heap_write a xs h) = heap_write a ys h"
  by (simp add: heap_write_def)

lemma cells_heap_write: "cells (heap_write a xs h) b = (if b = a then xs else cells h b)"
  by (simp add: heap_write_def)

lemma next_heap_write: "next_addr (heap_write a xs h) = next_addr h"
  by (simp add: heap_write_def)

subsection \<open>The loop over the mapping, in closed form\<close>

lemma length_assign_masked:
  "length (assign_masked data k x ys) = min (length data) (length ys)"
  by (simp add: assign_masked_def)

lemma map2_nested:
  "map2 f ds (map2 g ds ys) = map2 (\<lambda>d y. f d (g d y)) ds ys"
proof (induction ds arbitrary: ys)
  case Nil
  then show ?case by simp
next
  case (Cons d ds)
  then show ?case by (cases ys) simp_all
qed

lemma map2_id: "length ys = length ds \<Longrightarrow> map2 (\<lambda>d y. y) ds ys = ys"
  by (induction ds ys rule: list_induct2') simp_all

lemma relabelled_Nil: "length ys = length data \<Longrightarrow> relabelled l dt pz [] data ys = ys"
  by (simp add: relabelled_def active_def map2_id)

lemma relabelled_skip:
  "k = 0 \<and> pz \<Longrightarrow> relabelled l dt pz ((k, v) # m) data ys = relabelled l dt pz m data ys"
  by (simp add: relabelled_def active_def)

lemma relabelled_Cons:
  assumes "\<not> (k = 0 \<and> pz)" and "np_store l dt v = Some x"
  shows "relabelled l dt pz ((k, v) # m) data ys
           = relabelled l dt pz m data (assign_masked data k x ys)"
proof -
  have "(case map_of (rev (active pz m) @ [(k, v)]) (sint d) of
           None \<Rightarrow> y | Some w \<Rightarrow> the (np_store l dt w))
        = (case map_of (rev (active pz m)) (sint d) of
             None \<Rightarrow> (if sint d = k then x else y) | Some w \<Rightarrow> the (np_store l dt w))"
    for d :: int32 and y
    using assms(2) by (simp add: map_add_def split: option.split)
  then show ?thesis
    using assms(1) by (simp add: relabelled_def active_def assign_masked_def map2_nested)
qed

lemma apply_mapping_closed:
  assumes "length (cells h out) = length data"
  shows "apply_mapping l dt pz m data out h =
           (if \<exists>(k, v) \<in> set (active pz m). np_store l dt v = None then Inl StoreOverflow
            else Inr (heap_write out (relabelled l dt pz m data (cells h out)) h))"
  using assms
proof (induction m arbitrary: h)
  case Nil
  then show ?case by (simp add: relabelled_Nil heap_write_same active_def)
next
  case (Cons p m)
  obtain k v where p: "p = (k, v)" by (cases p)
  show ?case
  proof (cases "k = 0 \<and> pz")
    case True
    then have "active pz ((k, v) # m) = active pz m" by (simp add: active_def)
    with True Cons show ?thesis by (simp add: p relabelled_skip)
  next
    case False
    then have act: "active pz ((k, v) # m) = (k, v) # active pz m"
      by (auto simp add: active_def)
    show ?thesis
    proof (cases "np_store l dt v")
      case None
      with False show ?thesis by (auto simp add: p act)
    next
      case (Some x)
      let ?h = "heap_write out (assign_masked data k x (cells h out)) h"
      have len: "length (cells ?h out) = length data"
        using Cons.prems by (simp add: cells_heap_write length_assign_masked)
      have step: "apply_mapping l dt pz ((k, v) # m) data out h
                    = apply_mapping l dt pz m data out ?h"
        using False Some by auto
      have ih: "apply_mapping l dt pz m data out ?h =
          (if \<exists>(k, v) \<in> set (active pz m). np_store l dt v = None then Inl StoreOverflow
            else Inr (heap_write out (relabelled l dt pz m data (cells ?h out)) ?h))"
        by (rule Cons.IH [OF len])
      have rl: "relabelled l dt pz ((k, v) # m) data (cells h out)
                  = relabelled l dt pz m data (assign_masked data k x (cells h out))"
        using False Some by (rule relabelled_Cons)
      have ex: "(\<exists>(k', v') \<in> set (active pz ((k, v) # m)). np_store l dt v' = None)
                  = (\<exists>(k', v') \<in> set (active pz m). np_store l dt v' = None)"
        using Some by (simp add: act)
      show ?thesis
        unfolding p step ih rl ex
        by (simp add: cells_heap_write heap_write_twice)
    qed
  qed
qed

subsection \<open>The output dtype\<close>

lemma py_max_Max:
  assumes "vs \<noteq> []"
  shows "py_max vs = Max (set vs)"
proof (cases vs)
  case Nil
  with assms show ?thesis by simp
next
  case (Cons v vs')
  then show ?thesis using Max.set_eq_fold [of v vs'] by simp
qed

lemma needed_max_eq:
  "needed_max m pz = max (if m = [] then 0 else Max (snd ` set m)) (if pz then 1 else 0)"
  by (simp add: needed_max_def py_max_Max)

text \<open>
  Claim C3, as the spec states it, fails beyond the range of 32 bits: for the mapping
  \<open>{1: 2147483648}\<close>, which the groups \<open>[[1]]\<close> with \<open>start_label = 2147483648\<close> build, the
  needed maximum is 2147483648 and the dtype selected is the signed 32-bit one, whose
  maximum 2147483647 is below it. The last branch of line 140 tests nothing.
\<close>

theorem select_dtype_beyond_int32:
  "select_dtype [(1, 2147483648)] True None = Int32
   \<and> needed_max [(1, 2147483648)] True = 2147483648
   \<and> \<not> smallest_fitting (needed_max [(1, 2147483648)] True)
         (select_dtype [(1, 2147483648)] True None)"
  by (simp add: select_dtype_def needed_max_def smallest_fitting_def candidates_def
        int8_max_def int16_max_def)

text \<open>
  Claim C3, amended. An explicit dtype of the caller is returned as it is, with no look at
  the mapping. With no explicit dtype, the needed maximum is the maximum of the largest
  new label of the mapping (0 for the empty mapping) and of 1 if \<open>preserve_zero\<close> else 0;
  when it is at most 2147483647, the dtype selected is the smallest of signed 8-bit (maximum
  127), signed 16-bit (maximum 32767) and signed 32-bit (maximum 2147483647) whose maximum
  is at least the needed maximum, and when it is larger the dtype selected is the signed
  32-bit one all the same. In particular a largest new label of 100 with \<open>preserve_zero\<close>
  selects 8 bits, and one of 200 selects 16 bits.
\<close>

theorem select_dtype_width:
  "select_dtype m pz (Some d) = d
   \<and> needed_max m pz = max (if m = [] then 0 else Max (snd ` set m)) (if pz then 1 else 0)
   \<and> (needed_max m pz \<le> 2147483647
        \<longrightarrow> smallest_fitting (needed_max m pz) (select_dtype m pz None))
   \<and> (2147483647 < needed_max m pz \<longrightarrow> select_dtype m pz None = Int32)
   \<and> (m \<noteq> [] \<and> Max (snd ` set m) = 100 \<longrightarrow> select_dtype m True None = Int8)
   \<and> (m \<noteq> [] \<and> Max (snd ` set m) = 200 \<longrightarrow> select_dtype m True None = Int16)"
proof -
  have a: "select_dtype m pz (Some d) = d"
    by (simp add: select_dtype_def)
  have b: "needed_max m pz \<le> 2147483647
             \<longrightarrow> smallest_fitting (needed_max m pz) (select_dtype m pz None)"
    by (simp add: select_dtype_def smallest_fitting_def candidates_def int8_max_def
          int16_max_def)
  have c: "2147483647 < needed_max m pz \<longrightarrow> select_dtype m pz None = Int32"
    by (simp add: select_dtype_def int8_max_def int16_max_def)
  have d: "m \<noteq> [] \<and> Max (snd ` set m) = 100 \<longrightarrow> select_dtype m True None = Int8"
    by (simp add: select_dtype_def needed_max_eq int8_max_def)
  have e: "m \<noteq> [] \<and> Max (snd ` set m) = 200 \<longrightarrow> select_dtype m True None = Int16"
    by (simp add: select_dtype_def needed_max_eq int8_max_def int16_max_def)
  from a b c d e needed_max_eq show ?thesis by blast
qed

theorem select_dtype_width_witness:
  "needed_max [(7, 100)] True \<le> 2147483647
   \<and> smallest_fitting (needed_max [(7, 100)] True) (select_dtype [(7, 100)] True None)
   \<and> select_dtype [(7, 100)] True None = Int8
   \<and> select_dtype [(7, 200)] True None = Int16
   \<and> 2147483647 < needed_max [(7, 2147483648)] True
   \<and> select_dtype [(7, 2147483648)] True None = Int32
   \<and> select_dtype [(7, 200)] True (Some Int8) = Int8"
  using select_dtype_width [of "[(7, 100)]" True Int8]
        select_dtype_width [of "[(7, 200)]" True Int8]
        select_dtype_width [of "[(7, 2147483648)]" True Int8]
  by (auto simp add: needed_max_def)

subsection \<open>Building the mapping\<close>

lemma map_of_dict_set: "map_of (dict_set k v m) = (map_of m)(k \<mapsto> v)"
  by (induction m) (auto simp add: fun_eq_iff)

lemma keys_dict_set_in: "k \<in> fst ` set m \<Longrightarrow> map fst (dict_set k v m) = map fst m"
  by (induction m) force+

lemma keys_dict_set_notin: "k \<notin> fst ` set m \<Longrightarrow> map fst (dict_set k v m) = map fst m @ [k]"
  by (induction m) auto

lemma keys_dict_set:
  "map fst (dict_set k v m) = (if k \<in> fst ` set m then map fst m else map fst m @ [k])"
  by (simp add: keys_dict_set_in keys_dict_set_notin)

lemma distinct_dict_set: "distinct (map fst m) \<Longrightarrow> distinct (map fst (dict_set k v m))"
  by (simp add: keys_dict_set)

lemma first_wins_append: "first_wins (cs @ ds) st = first_wins ds (first_wins cs st)"
proof (induction cs arbitrary: st)
  case Nil
  then show ?case by simp
next
  case (Cons c cs)
  obtain lab v where c: "c = (lab, v)" by (cases c)
  obtain m ws where st: "st = (m, ws)" by (cases st)
  show ?case by (simp add: c st Cons split: option.split)
qed

lemma seq_group_first_wins:
  assumes "map py_int grp = map Inr ig"
  shows "seq_group new_label grp st = Inr (first_wins (map (\<lambda>lab. (lab, new_label)) ig) st)"
  using assms
proof (induction grp arbitrary: ig st)
  case Nil
  then show ?case by simp
next
  case (Cons lab grp)
  then obtain l ig' where ig: "ig = l # ig'" and l: "py_int lab = Inr l"
    and rest: "map py_int grp = map Inr ig'"
    by (cases ig) auto
  obtain m ws where st: "st = (m, ws)" by (cases st)
  show ?case by (simp add: ig l st Cons.IH [OF rest] split: option.split)
qed

lemma seq_claims_Nil: "seq_claims s idx [] = []"
  by (simp add: seq_claims_def)

lemma seq_claims_Cons:
  "seq_claims s idx (g # gs) = map (\<lambda>lab. (lab, s + int idx)) g @ seq_claims s (Suc idx) gs"
  by (simp add: seq_claims_def)

lemma seq_groups_first_wins:
  assumes "map (map py_int) gs = map (map Inr) igs"
  shows "seq_groups s idx gs st = Inr (first_wins (seq_claims s idx igs) st)"
  using assms
proof (induction gs arbitrary: igs idx st)
  case Nil
  then show ?case by (simp add: seq_claims_Nil)
next
  case (Cons g gs)
  then obtain ig igs' where igs: "igs = ig # igs'" and g: "map py_int g = map Inr ig"
    and rest: "map (map py_int) gs = map (map Inr) igs'"
    by (cases igs) auto
  show ?case
    by (simp add: igs seq_group_first_wins [OF g] Cons.IH [OF rest] seq_claims_Cons
          first_wins_append)
qed

lemma map_entry_first_wins:
  assumes "py_int new_label = Inr v" and "map py_key originals = map Some ig"
    and "map py_int originals = map Inr ig"
  shows "map_entry new_label originals st = Inr (first_wins (map (\<lambda>lab. (lab, v)) ig) st)"
  using assms(2,3)
proof (induction originals arbitrary: ig st)
  case Nil
  then show ?case by simp
next
  case (Cons lab originals)
  then obtain l ig' where ig: "ig = l # ig'" and l: "py_key lab = Some l"
    and li: "py_int lab = Inr l"
    and rest: "map py_key originals = map Some ig'"
    and rest': "map py_int originals = map Inr ig'"
    by (cases ig) auto
  obtain m ws where st: "st = (m, ws)" by (cases st)
  show ?case
    by (simp add: ig l li st assms(1) dict_find_def Cons.IH [OF rest rest']
          split: option.split)
qed

lemma map_claims_Nil: "map_claims [] = []"
  by (simp add: map_claims_def)

lemma map_claims_Cons:
  "map_claims ((v, g) # es) = map (\<lambda>lab. (lab, v)) g @ map_claims es"
  by (simp add: map_claims_def)

lemma map_entries_first_wins:
  assumes "list_all2 (\<lambda>(new_label, originals) (v, ig).
              py_int new_label = Inr v \<and> map py_key originals = map Some ig
              \<and> map py_int originals = map Inr ig) es ies"
  shows "map_entries es st = Inr (first_wins (map_claims ies) st)"
  using assms
proof (induction es ies arbitrary: st rule: list_all2_induct)
  case Nil
  then show ?case by (simp add: map_claims_Nil)
next
  case (Cons e es ie ies)
  obtain new_label originals where e: "e = (new_label, originals)" by (cases e)
  obtain v ig where ie: "ie = (v, ig)" by (cases ie)
  from Cons.hyps(1) have a: "py_int new_label = Inr v" and b: "map py_key originals = map Some ig"
    and c: "map py_int originals = map Inr ig"
    by (simp_all add: e ie)
  show ?case
    by (simp add: e ie map_entry_first_wins [OF a b c] Cons.IH map_claims_Cons first_wins_append)
qed

lemma first_wins_map_of:
  "map_of (fst (first_wins cs (m, ws))) = map_of cs ++ map_of m"
proof (induction cs arbitrary: m ws)
  case Nil
  then show ?case by simp
next
  case (Cons c cs)
  obtain lab v where c: "c = (lab, v)" by (cases c)
  show ?case
  proof (cases "map_of m lab")
    case None
    then show ?thesis
      by (auto simp add: c Cons map_of_dict_set fun_eq_iff map_add_def split: option.split)
  next
    case (Some t)
    then show ?thesis
      by (auto simp add: c Cons fun_eq_iff map_add_def split: option.split)
  qed
qed

lemma first_wins_distinct:
  "distinct (map fst m) \<Longrightarrow> distinct (map fst (fst (first_wins cs (m, ws))))"
proof (induction cs arbitrary: m ws)
  case Nil
  then show ?case by simp
next
  case (Cons c cs)
  obtain lab v where c: "c = (lab, v)" by (cases c)
  show ?case
    using Cons.prems
    by (auto simp add: c intro!: Cons.IH distinct_dict_set split: option.split)
qed

lemma first_wins_keys:
  "fst ` set (fst (first_wins cs (m, ws))) = fst ` set m \<union> fst ` set cs"
proof -
  have "dom (map_of (fst (first_wins cs (m, ws)))) = dom (map_of cs ++ map_of m)"
    by (simp only: first_wins_map_of)
  then show ?thesis by (auto simp add: dom_map_of_conv_image_fst)
qed

lemma conflicts_Nil: "conflicts [] = []"
  by (simp add: conflicts_def)

lemma conflicts_snoc:
  "conflicts (cs @ [(lab, v)]) =
     conflicts cs @ (if lab \<in> fst ` set cs then [(lab, the (map_of cs lab))] else [])"
proof -
  let ?cs' = "cs @ [(lab, v)]"
  let ?F = "\<lambda>xs j. if fst (xs ! j) \<in> fst ` set (take j xs)
                    then [(fst (xs ! j), the (map_of xs (fst (xs ! j))))] else []"
  have old: "?F ?cs' j = ?F cs j" if "j \<in> set [0..<length cs]" for j
  proof -
    from that have j: "j < length cs" by simp
    have "fst (cs ! j) \<in> fst ` set cs" using j by simp
    then have "map_of ?cs' (fst (cs ! j)) = map_of cs (fst (cs ! j))"
      by (auto simp add: map_add_def dom_map_of_conv_image_fst [symmetric] split: option.split)
    with j show ?thesis by (simp add: nth_append)
  qed
  have last: "?F ?cs' (length cs) = (if lab \<in> fst ` set cs then [(lab, the (map_of cs lab))] else [])"
    by (auto simp add: map_add_def dom_map_of_conv_image_fst [symmetric] split: option.split)
  have "conflicts ?cs' = concat (map (?F ?cs') [0..<length cs]) @ ?F ?cs' (length cs)"
    by (simp add: conflicts_def)
  also have "map (?F ?cs') [0..<length cs] = map (?F cs) [0..<length cs]"
    by (rule map_cong [OF refl old])
  finally show ?thesis
    by (simp only: last) (simp add: conflicts_def)
qed

lemma first_wins_snoc:
  "first_wins (cs @ [(lab, v)]) ([], []) =
     (case map_of (fst (first_wins cs ([], []))) lab of
        Some t \<Rightarrow> (fst (first_wins cs ([], [])), snd (first_wins cs ([], [])) @ [(lab, t)])
      | None \<Rightarrow> (dict_set lab v (fst (first_wins cs ([], []))), snd (first_wins cs ([], []))))"
  by (cases "first_wins cs ([], [])") (simp add: first_wins_append split: option.split)

lemma first_wins_conflicts: "snd (first_wins cs ([], [])) = conflicts cs"
proof (induction cs rule: rev_induct)
  case Nil
  then show ?case by (simp add: conflicts_Nil)
next
  case (snoc c cs)
  obtain lab v where c: "c = (lab, v)" by (cases c)
  have m: "map_of (fst (first_wins cs ([], []))) = map_of cs"
    by (simp add: first_wins_map_of)
  show ?case
  proof (cases "map_of cs lab")
    case None
    then have "lab \<notin> fst ` set cs" by (simp add: map_of_eq_None_iff)
    with None show ?thesis
      by (simp add: c first_wins_snoc m conflicts_snoc snoc.IH)
  next
    case (Some t)
    then have "lab \<in> fst ` set cs" by (metis map_of_eq_None_iff option.distinct(1))
    with Some show ?thesis
      by (simp add: c first_wins_snoc m conflicts_snoc snoc.IH)
  qed
qed

lemma conflicts_labels:
  "fst ` set (conflicts cs) = {lab. 1 < count_list (map fst cs) lab}"
proof (induction cs rule: rev_induct)
  case Nil
  then show ?case by (simp add: conflicts_Nil)
next
  case (snoc c cs)
  obtain lab v where c: "c = (lab, v)" by (cases c)
  have pos: "(0 < count_list (map fst cs) lab) = (lab \<in> fst ` set cs)"
    using count_list_0_iff [of "map fst cs" lab] by auto
  have A: "fst ` set (conflicts (cs @ [(lab, v)]))
             = fst ` set (conflicts cs) \<union> (if lab \<in> fst ` set cs then {lab} else {})"
    by (simp add: conflicts_snoc image_Un)
  have B: "{x. 1 < count_list (map fst (cs @ [(lab, v)])) x}
             = {x. 1 < count_list (map fst cs) x} \<union> (if lab \<in> fst ` set cs then {lab} else {})"
    using pos by auto
  show ?case unfolding c A B snoc.IH ..
qed

lemma conflicts_length:
  "length (conflicts cs) = length cs - card (fst ` set cs)"
proof (induction cs rule: rev_induct)
  case Nil
  then show ?case by (simp add: conflicts_Nil)
next
  case (snoc c cs)
  obtain lab v where c: "c = (lab, v)" by (cases c)
  have le: "card (fst ` set cs) \<le> length cs"
    by (metis card_image_le card_length le_trans List.finite_set)
  show ?case
    using snoc.IH le by (auto simp add: c conflicts_snoc insert_absorb)
qed

lemma map_of_const:
  "map_of (map (\<lambda>lab. (lab, c)) g) lab = (if lab \<in> set g then Some c else None)"
  by (induction g) auto

lemma seq_claims_labels: "map fst (seq_claims s idx igs) = concat igs"
  by (induction igs arbitrary: idx) (simp_all add: seq_claims_Nil seq_claims_Cons comp_def)

lemma map_claims_labels: "map fst (map_claims ies) = concat (map snd ies)"
  by (induction ies) (auto simp add: map_claims_Nil map_claims_Cons comp_def)

lemma map_of_seq_claims_first:
  assumes "i < length igs" and "lab \<in> set (igs ! i)" and "\<forall>j<i. lab \<notin> set (igs ! j)"
  shows "map_of (seq_claims s idx igs) lab = Some (s + int (idx + i))"
  using assms
proof (induction igs arbitrary: idx i)
  case Nil
  then show ?case by simp
next
  case (Cons g gs)
  show ?case
  proof (cases i)
    case 0
    with Cons.prems show ?thesis
      by (simp add: seq_claims_Cons map_of_const map_add_def)
  next
    case (Suc i')
    from Cons.prems(3) Suc have notin: "lab \<notin> set g" by auto
    have a: "i' < length gs" using Cons.prems(1) Suc by simp
    have b: "lab \<in> set (gs ! i')" using Cons.prems(2) Suc by simp
    have c: "\<forall>j<i'. lab \<notin> set (gs ! j)"
    proof (intro allI impI)
      fix j assume "j < i'"
      then have "Suc j < i" using Suc by simp
      with Cons.prems(3) have "lab \<notin> set ((g # gs) ! Suc j)" by blast
      then show "lab \<notin> set (gs ! j)" by simp
    qed
    have "map_of (seq_claims s (Suc idx) gs) lab = Some (s + int (Suc idx + i'))"
      by (rule Cons.IH [OF a b c])
    with notin Suc show ?thesis
      by (simp add: seq_claims_Cons map_of_const map_add_def)
  qed
qed

lemma map_of_seq_claims_none:
  assumes "lab \<notin> \<Union> (set ` set igs)"
  shows "map_of (seq_claims s idx igs) lab = None"
proof -
  have "fst ` set (seq_claims s idx igs) = set (concat igs)"
    by (metis seq_claims_labels set_map)
  with assms show ?thesis by (simp add: map_of_eq_None_iff)
qed

lemma build_seq:
  assumes "map (map py_int) gs = map (map Inr) igs"
  shows "build_mapping (GroupSeq gs) s = Inr (first_wins (seq_claims s 0 igs) ([], []))"
  by (simp add: build_mapping_def seq_groups_first_wins [OF assms])

lemma build_map:
  assumes "list_all2 (\<lambda>(new_label, originals) (v, ig).
              py_int new_label = Inr v \<and> map py_key originals = map Some ig
              \<and> map py_int originals = map Inr ig) es ies"
  shows "build_mapping (GroupMap es) s = Inr (first_wins (map_claims ies) ([], []))"
  by (simp add: build_mapping_def map_entries_first_wins [OF assms])

text \<open>
  Claim C1. For a sequence of groups whose labels \<open>int()\<close> accepts, the mapping is built,
  with distinct keys; a label is sent to \<open>start_label + i\<close> for the first group, of index
  \<open>i\<close>, that holds it (a later claim of the label is skipped: the first assignment wins),
  and a label of no group is not a key; the warnings are, in order, one for every later
  occurrence of a label, naming the label and the new label it is already mapped to. For
  the groups \<open>[[1,2],[2,3]]\<close> with \<open>start_label = 1\<close> the mapping sends 2 to 1 and
  the one warning emitted is the one for label 2, already mapped to 1.
\<close>

theorem sequence_first_wins:
  "(map (map py_int) gs = map (map Inr) igs \<longrightarrow>
      (\<exists>m ws. build_mapping (GroupSeq gs) start_label = Inr (m, ws)
         \<and> distinct (map fst m)
         \<and> (\<forall>i lab. i < length igs \<and> lab \<in> set (igs ! i) \<and> (\<forall>j<i. lab \<notin> set (igs ! j))
               \<longrightarrow> map_of m lab = Some (start_label + int i))
         \<and> (\<forall>lab. lab \<notin> \<Union> (set ` set igs) \<longrightarrow> map_of m lab = None)
         \<and> ws = conflicts (seq_claims start_label 0 igs)))
   \<and> build_mapping (GroupSeq [[PyInt 1, PyInt 2], [PyInt 2, PyInt 3]]) 1
         = Inr ([(1, 1), (2, 1), (3, 2)], [(2, 1)])"
proof (intro conjI impI)
  assume co: "map (map py_int) gs = map (map Inr) igs"
  let ?cs = "seq_claims start_label 0 igs"
  obtain m ws where st: "first_wins ?cs ([], []) = (m, ws)" by (cases "first_wins ?cs ([], [])")
  have b: "build_mapping (GroupSeq gs) start_label = Inr (m, ws)"
    using build_seq [OF co, of start_label] st by simp
  have m: "map_of m = map_of ?cs"
    using first_wins_map_of [of ?cs "[]" "[]"] st by simp
  have d: "distinct (map fst m)"
    using first_wins_distinct [of "[]" ?cs "[]"] st by simp
  have w: "ws = conflicts ?cs"
    using first_wins_conflicts [of ?cs] st by simp
  have f: "\<forall>i lab. i < length igs \<and> lab \<in> set (igs ! i) \<and> (\<forall>j<i. lab \<notin> set (igs ! j))
               \<longrightarrow> map_of m lab = Some (start_label + int i)"
    using map_of_seq_claims_first [of _ igs _ start_label 0] by (simp add: m)
  have n: "\<forall>lab. lab \<notin> \<Union> (set ` set igs) \<longrightarrow> map_of m lab = None"
    using map_of_seq_claims_none [of _ igs start_label 0] by (simp add: m)
  from b d f n w
  show "\<exists>m ws. build_mapping (GroupSeq gs) start_label = Inr (m, ws)
         \<and> distinct (map fst m)
         \<and> (\<forall>i lab. i < length igs \<and> lab \<in> set (igs ! i) \<and> (\<forall>j<i. lab \<notin> set (igs ! j))
               \<longrightarrow> map_of m lab = Some (start_label + int i))
         \<and> (\<forall>lab. lab \<notin> \<Union> (set ` set igs) \<longrightarrow> map_of m lab = None)
         \<and> ws = conflicts (seq_claims start_label 0 igs)"
    by blast
next
  show "build_mapping (GroupSeq [[PyInt 1, PyInt 2], [PyInt 2, PyInt 3]]) 1
         = Inr ([(1, 1), (2, 1), (3, 2)], [(2, 1)])"
    by (simp add: build_mapping_def)
qed

lemma conflicts_example: "conflicts (seq_claims 1 0 [[1, 2], [2, 3]]) = [(2, 1)]"
  by (simp add: conflicts_def seq_claims_def upt_rec numeral_nat)

theorem sequence_first_wins_witness:
  "map (map py_int) [[PyStr 1, PyInt 2], [PyFloat 2, PyInt 3]] = map (map Inr) [[1, 2], [2, 3]]
   \<and> (\<exists>m ws. build_mapping (GroupSeq [[PyStr 1, PyInt 2], [PyFloat 2, PyInt 3]]) 1 = Inr (m, ws)
         \<and> map_of m 2 = Some 1 \<and> map_of m 3 = Some 2 \<and> map_of m 4 = None \<and> ws = [(2, 1)])"
proof -
  let ?gs = "[[PyStr 1, PyInt 2], [PyFloat 2, PyInt 3]]"
  let ?igs = "[[1, 2], [2, 3 :: int]]"
  have co: "map (map py_int) ?gs = map (map Inr) ?igs" by simp
  from sequence_first_wins [of ?gs ?igs 1] co
  obtain m ws where b: "build_mapping (GroupSeq ?gs) 1 = Inr (m, ws)"
    and f: "\<forall>i lab. i < length ?igs \<and> lab \<in> set (?igs ! i) \<and> (\<forall>j<i. lab \<notin> set (?igs ! j))
               \<longrightarrow> map_of m lab = Some (1 + int i)"
    and n: "\<forall>lab. lab \<notin> \<Union> (set ` set ?igs) \<longrightarrow> map_of m lab = None"
    and w: "ws = conflicts (seq_claims 1 0 ?igs)"
    by blast
  from f [rule_format, of 0 2] have m2: "map_of m 2 = Some 1" by simp
  from f [rule_format, of 1 3] have m3: "map_of m 3 = Some 2" by (simp add: less_Suc_eq)
  from n [rule_format, of 4] have m4: "map_of m 4 = None" by simp
  from w have w': "ws = [(2, 1)]" by (simp add: conflicts_example)
  from co b m2 m3 m4 w' show ?thesis by blast
qed

lemma map_of_first_claim:
  assumes "j < length cs" and "fst (cs ! j) \<notin> fst ` set (take j cs)"
  shows "map_of cs (fst (cs ! j)) = Some (snd (cs ! j))"
proof -
  have none: "map_of (take j cs) (fst (cs ! j)) = None"
    using assms(2) by (simp add: map_of_eq_None_iff)
  have "map_of (take j cs @ cs ! j # drop (Suc j) cs) (fst (cs ! j)) = Some (snd (cs ! j))"
    by (simp add: map_add_def none)
  then show ?thesis by (simp add: id_take_nth_drop [OF assms(1), symmetric])
qed

lemma first_wins_summary:
  assumes "first_wins cs ([], []) = (m, ws)"
  shows "fst ` set ws = {lab. 1 < count_list (map fst cs) lab}"
    and "ws = conflicts cs"
    and "length ws = length (map fst cs) - card (set (map fst cs))"
    and "distinct (map fst m)"
    and "fst ` set m = set (map fst cs)"
    and "\<forall>j<length cs. fst (cs ! j) \<notin> fst ` set (take j cs)
               \<longrightarrow> map_of m (fst (cs ! j)) = Some (snd (cs ! j))"
proof -
  show w: "ws = conflicts cs" using first_wins_conflicts [of cs] assms by simp
  have k: "fst ` set m = fst ` set cs" using first_wins_keys [of cs "[]" "[]"] assms by simp
  show "distinct (map fst m)" using first_wins_distinct [of "[]" cs "[]"] assms by simp
  have mo: "map_of m = map_of cs" using first_wins_map_of [of cs "[]" "[]"] assms by simp
  show "\<forall>j<length cs. fst (cs ! j) \<notin> fst ` set (take j cs)
               \<longrightarrow> map_of m (fst (cs ! j)) = Some (snd (cs ! j))"
    unfolding mo using map_of_first_claim [of _ cs] by blast
  show "fst ` set ws = {lab. 1 < count_list (map fst cs) lab}"
    by (simp add: w conflicts_labels)
  show "length ws = length (map fst cs) - card (set (map fst cs))"
    by (simp add: w conflicts_length)
  show "fst ` set m = set (map fst cs)" by (simp add: k)
qed

text \<open>
  Claim C5, as the spec states it, fails in one direction: the groups \<open>[[1, 1]]\<close> emit a
  warning for label 1, which no second group claims. The test of line 126 asks whether
  the label is a key already, whichever group made it one.
\<close>

theorem repeated_label_warns:
  "build_mapping (GroupSeq [[PyInt 1, PyInt 1]]) 1 = Inr ([(1, 1)], [(1, 1)])
   \<and> \<not> claimed_by_many [[1, 1]] 1"
  by (simp add: build_mapping_def claimed_by_many_def)

text \<open>
  Claim C5, amended. A conflict warning is emitted for a label if and only if the label
  occurs more than once among the original labels in the order of the iteration, be it in
  two groups (or entries) or twice in one, and the later claim is dropped: \<open>warn\<close> is
  called at the claims whose label was claimed at an earlier position, with the new label
  of the first claim, and the mapping sends every label to the new label of the first
  claim of it. The warnings are not fatal: the construction runs to its end, and the keys
  of the mapping are the labels of the groups, each once. This holds for a sequence of
  groups whose labels \<open>int()\<close> accepts, and for a mapping whose new labels \<open>int()\<close> accepts
  and whose original labels are equal to the ints \<open>int()\<close> makes of them (ints, or floats
  with an integral value).
\<close>

theorem conflict_warnings:
  "(map (map py_int) gs = map (map Inr) igs \<longrightarrow>
      (\<exists>m ws. build_mapping (GroupSeq gs) start_label = Inr (m, ws)
         \<and> fst ` set ws = {lab. 1 < count_list (concat igs) lab}
         \<and> ws = conflicts (seq_claims start_label 0 igs)
         \<and> length ws = length (concat igs) - card (set (concat igs))
         \<and> distinct (map fst m)
         \<and> fst ` set m = set (concat igs)
         \<and> (\<forall>j<length (seq_claims start_label 0 igs).
               fst (seq_claims start_label 0 igs ! j) \<notin> fst ` set (take j (seq_claims start_label 0 igs))
               \<longrightarrow> map_of m (fst (seq_claims start_label 0 igs ! j)) = Some (snd (seq_claims start_label 0 igs ! j)))))
   \<and> (list_all2 (\<lambda>(new_label, originals) (v, ig).
          py_int new_label = Inr v \<and> map py_key originals = map Some ig
          \<and> map py_int originals = map Inr ig) es ies \<longrightarrow>
      (\<exists>m ws. build_mapping (GroupMap es) start_label = Inr (m, ws)
         \<and> fst ` set ws = {lab. 1 < count_list (concat (map snd ies)) lab}
         \<and> ws = conflicts (map_claims ies)
         \<and> length ws = length (concat (map snd ies)) - card (set (concat (map snd ies)))
         \<and> distinct (map fst m)
         \<and> fst ` set m = set (concat (map snd ies))
         \<and> (\<forall>j<length (map_claims ies).
               fst (map_claims ies ! j) \<notin> fst ` set (take j (map_claims ies))
               \<longrightarrow> map_of m (fst (map_claims ies ! j)) = Some (snd (map_claims ies ! j)))))"
proof (intro conjI impI)
  assume co: "map (map py_int) gs = map (map Inr) igs"
  let ?cs = "seq_claims start_label 0 igs"
  obtain m ws where st: "first_wins ?cs ([], []) = (m, ws)" by (cases "first_wins ?cs ([], [])")
  have b: "build_mapping (GroupSeq gs) start_label = Inr (m, ws)"
    using build_seq [OF co, of start_label] st by simp
  note s = first_wins_summary [OF st, unfolded seq_claims_labels]
  show "(\<exists>m ws. build_mapping (GroupSeq gs) start_label = Inr (m, ws)
           \<and> fst ` set ws = {lab. 1 < count_list (concat igs) lab}
           \<and> ws = conflicts (seq_claims start_label 0 igs)
           \<and> length ws = length (concat igs) - card (set (concat igs))
           \<and> distinct (map fst m)
           \<and> fst ` set m = set (concat igs)
           \<and> (\<forall>j<length (seq_claims start_label 0 igs).
                 fst (seq_claims start_label 0 igs ! j) \<notin> fst ` set (take j (seq_claims start_label 0 igs))
                 \<longrightarrow> map_of m (fst (seq_claims start_label 0 igs ! j)) = Some (snd (seq_claims start_label 0 igs ! j))))"
    by (rule exI [of _ m], rule exI [of _ ws]) (intro conjI b s)
next
  assume co: "list_all2 (\<lambda>(new_label, originals) (v, ig).
            py_int new_label = Inr v \<and> map py_key originals = map Some ig
            \<and> map py_int originals = map Inr ig) es ies"
  let ?cs = "map_claims ies"
  obtain m ws where st: "first_wins ?cs ([], []) = (m, ws)" by (cases "first_wins ?cs ([], [])")
  have b: "build_mapping (GroupMap es) start_label = Inr (m, ws)"
    using build_map [OF co, of start_label] st by simp
  note s = first_wins_summary [OF st, unfolded map_claims_labels]
  show "(\<exists>m ws. build_mapping (GroupMap es) start_label = Inr (m, ws)
           \<and> fst ` set ws = {lab. 1 < count_list (concat (map snd ies)) lab}
           \<and> ws = conflicts (map_claims ies)
           \<and> length ws = length (concat (map snd ies)) - card (set (concat (map snd ies)))
           \<and> distinct (map fst m)
           \<and> fst ` set m = set (concat (map snd ies))
           \<and> (\<forall>j<length (map_claims ies).
                 fst (map_claims ies ! j) \<notin> fst ` set (take j (map_claims ies))
                 \<longrightarrow> map_of m (fst (map_claims ies ! j)) = Some (snd (map_claims ies ! j))))"
    by (rule exI [of _ m], rule exI [of _ ws]) (intro conjI b s)
qed

lemma claims_example_seq: "seq_claims 5 0 [[1, 1], [2]] = [(1, 5), (1, 5), (2, 6)]"
  by (simp add: seq_claims_def)

lemma claims_example_map: "map_claims [(7, [1, 2]), (8, [2])] = [(1, 7), (2, 7), (2, 8)]"
  by (simp add: map_claims_def)

lemma conflicts_example_seq: "conflicts [(1, 5), (1, 5), (2 :: int, 6 :: int)] = [(1, 5)]"
  by (simp add: conflicts_def upt_rec numeral_nat)

lemma conflicts_example_map: "conflicts [(1, 7), (2, 7), (2 :: int, 8 :: int)] = [(2, 7)]"
  by (simp add: conflicts_def upt_rec numeral_nat)

theorem conflict_warnings_witness:
  "map (map py_int) [[PyInt 1, PyInt 1], [PyInt 2]] = map (map Inr) [[1, 1], [2]]
   \<and> (\<exists>m ws. build_mapping (GroupSeq [[PyInt 1, PyInt 1], [PyInt 2]]) 5 = Inr (m, ws)
         \<and> fst ` set ws = {lab. 1 < count_list [1, 1, 2] lab} \<and> ws = [(1, 5)]
         \<and> map_of m 1 = Some 5 \<and> map_of m 2 = Some 6 \<and> fst ` set m = {1, 2})
   \<and> list_all2 (\<lambda>(new_label, originals) (v, ig).
          py_int new_label = Inr v \<and> map py_key originals = map Some ig
          \<and> map py_int originals = map Inr ig)
        [(PyStr 7, [PyInt 1, PyInt 2]), (PyStr 8, [PyInt 2])] [(7, [1, 2]), (8, [2])]
   \<and> (\<exists>m ws. build_mapping (GroupMap [(PyStr 7, [PyInt 1, PyInt 2]), (PyStr 8, [PyInt 2])]) 5
                 = Inr (m, ws)
         \<and> fst ` set ws = {lab. 1 < count_list [1, 2, 2] lab} \<and> ws = [(2, 7)]
         \<and> map_of m 1 = Some 7 \<and> map_of m 2 = Some 7 \<and> fst ` set m = {1, 2})"
proof -
  let ?gs = "[[PyInt 1, PyInt 1], [PyInt 2]]"
  let ?igs = "[[1, 1], [2 :: int]]"
  let ?es = "[(PyStr 7, [PyInt 1, PyInt 2]), (PyStr 8, [PyInt 2])]"
  let ?ies = "[(7 :: int, [1, 2 :: int]), (8, [2])]"
  have a: "map (map py_int) ?gs = map (map Inr) ?igs"
    by simp
  have b: "list_all2 (\<lambda>(new_label, originals) (v, ig).
          py_int new_label = Inr v \<and> map py_key originals = map Some ig
          \<and> map py_int originals = map Inr ig) ?es ?ies"
    by simp
  note t = conflict_warnings [of ?gs ?igs 5 ?es ?ies]
  from t [THEN conjunct1, THEN mp, OF a, unfolded claims_example_seq conflicts_example_seq]
  obtain m ws where s1: "build_mapping (GroupSeq ?gs) 5 = Inr (m, ws)"
    and s2: "fst ` set ws = {lab. 1 < count_list (concat ?igs) lab}"
    and s3: "ws = [(1, 5)]"
    and s4: "fst ` set m = set (concat ?igs)"
    and s5: "\<forall>j<length [(1, 5), (1, 5), (2 :: int, 6 :: int)].
         fst ([(1, 5), (1, 5), (2 :: int, 6 :: int)] ! j)
           \<notin> fst ` set (take j [(1, 5), (1, 5), (2 :: int, 6 :: int)])
         \<longrightarrow> map_of m (fst ([(1, 5), (1, 5), (2 :: int, 6 :: int)] ! j))
               = Some (snd ([(1, 5), (1, 5), (2 :: int, 6 :: int)] ! j))"
    by (elim exE conjE)
  from s5 [rule_format, of 0] have s6: "map_of m 1 = Some 5" by simp
  from s5 [rule_format, of 2] have s7: "map_of m 2 = Some 6" by simp
  from s2 have s2': "fst ` set ws = {lab. 1 < count_list [1, 1, 2] lab}" by simp
  from s4 have s4': "fst ` set m = {1, 2}" by simp
  have seq: "\<exists>m ws. build_mapping (GroupSeq ?gs) 5 = Inr (m, ws)
         \<and> fst ` set ws = {lab. 1 < count_list [1, 1, 2] lab} \<and> ws = [(1, 5)]
         \<and> map_of m 1 = Some 5 \<and> map_of m 2 = Some 6 \<and> fst ` set m = {1, 2}"
    by (rule exI [of _ m], rule exI [of _ ws]) (intro conjI s1 s2' s3 s6 s7 s4')
  from t [THEN conjunct2, THEN mp, OF b, unfolded claims_example_map conflicts_example_map]
  obtain m' ws' where m1: "build_mapping (GroupMap ?es) 5 = Inr (m', ws')"
    and m2: "fst ` set ws' = {lab. 1 < count_list (concat (map snd ?ies)) lab}"
    and m3: "ws' = [(2, 7)]"
    and m4: "fst ` set m' = set (concat (map snd ?ies))"
    and m5: "\<forall>j<length [(1, 7), (2, 7), (2 :: int, 8 :: int)].
         fst ([(1, 7), (2, 7), (2 :: int, 8 :: int)] ! j)
           \<notin> fst ` set (take j [(1, 7), (2, 7), (2 :: int, 8 :: int)])
         \<longrightarrow> map_of m' (fst ([(1, 7), (2, 7), (2 :: int, 8 :: int)] ! j))
               = Some (snd ([(1, 7), (2, 7), (2 :: int, 8 :: int)] ! j))"
    by (elim exE conjE)
  from m5 [rule_format, of 0] have m6: "map_of m' 1 = Some 7" by simp
  from m5 [rule_format, of 1] have m7: "map_of m' 2 = Some 7" by simp
  from m2 have m2': "fst ` set ws' = {lab. 1 < count_list [1, 2, 2] lab}" by simp
  from m4 have m4': "fst ` set m' = {1, 2}" by (simp add: insert_commute)
  have mp: "\<exists>m ws. build_mapping (GroupMap ?es) 5 = Inr (m, ws)
         \<and> fst ` set ws = {lab. 1 < count_list [1, 2, 2] lab} \<and> ws = [(2, 7)]
         \<and> map_of m 1 = Some 7 \<and> map_of m 2 = Some 7 \<and> fst ` set m = {1, 2}"
    by (rule exI [of _ m'], rule exI [of _ ws']) (intro conjI m1 m2' m3 m6 m7 m4')
  show ?thesis by (intro conjI a seq b mp)
qed

text \<open>
  Claim C6 describes what the sequence form does and the mapping form misses: line 116
  tests \<open>lab in mapping\<close> on the label as handed in, and line 119 converts it only
  afterwards. For the groups \<^verbatim>\<open>{"1": ["2"], "2": ["2"]}\<close> (what \<open>json.loads\<close> makes of the text)
  the str \<^verbatim>\<open>"2"\<close> is never a key of a dictionary of ints, so the second claim of label 2
  overwrites the first and no warning is emitted, where the sequence form
  \<^verbatim>\<open>[["2"], ["2"]]\<close> keeps the first claim and warns. The same happens for the float 2.5,
  which \<open>int()\<close> truncates to 2.
\<close>

theorem mapping_form_tests_raw_label:
  "build_mapping (GroupMap [(PyStr 1, [PyStr 2]), (PyStr 2, [PyStr 2])]) 1 = Inr ([(2, 2)], [])
   \<and> build_mapping (GroupSeq [[PyStr 2], [PyStr 2]]) 1 = Inr ([(2, 1)], [(2, 1)])
   \<and> build_mapping (GroupMap [(PyInt 1, [PyFloat (5 / 2)]), (PyInt 2, [PyFloat (5 / 2)])]) 1
        = Inr ([(2, 2)], [])
   \<and> build_mapping (GroupSeq [[PyFloat (5 / 2)], [PyFloat (5 / 2)]]) 1 = Inr ([(2, 1)], [(2, 1)])"
proof -
  have f: "\<lfloor>5 / 2 :: rat\<rfloor> = 2" by (simp add: floor_eq_iff)
  show ?thesis
    by (simp add: build_mapping_def dict_find_def f)
qed

subsection \<open>The function as a whole\<close>

lemma relabelled_length: "length (relabelled l dt pz m data ys) = min (length data) (length ys)"
  by (simp add: relabelled_def)

lemma relabelled_nth:
  assumes "i < length data" and "length ys = length data"
  shows "relabelled l dt pz m data ys ! i =
           (case map_of (rev (active pz m)) (sint (data ! i)) of
              None \<Rightarrow> ys ! i
            | Some v \<Rightarrow> the (np_store l dt v))"
  using assms by (simp add: relabelled_def)

lemma combine_dseg_labels_Inr:
  assumes "combine_dseg_labels l dseg_input gr output_path s pz out_dtype h = Inr (res, h')"
  obtains img h0 m ws where
    "load_input l dseg_input h = Inr (img, h0)"
    and "build_mapping gr s = Inr (m, ws)"
    and "apply_mapping l (select_dtype m pz out_dtype) pz m
           (map (to_int32 l (header img)) (cells h0 (dataobj img))) (next_addr h0)
           (snd (heap_alloc (replicate (length (cells h0 (dataobj img))) 0) h0)) = Inr h'"
    and "image res = \<lparr>dataobj = next_addr h0, affine = affine img,
                       header = (header img)\<lparr>data_dtype := select_dtype m pz out_dtype\<rparr>\<rparr>"
    and "warnings res = ws"
    and "save_output l output_path = Inr (saved res)"
  using assms unfolding combine_dseg_labels_def
  by (auto simp add: Let_def heap_alloc_def split: sum.splits prod.splits)

lemma cells_heap_alloc:
  "cells (snd (heap_alloc xs h)) a = (if a = next_addr h then xs else cells h a)"
  by (simp add: heap_alloc_def)

text \<open>What a successful call leaves in the store.\<close>

lemma combine_dseg_labels_store:
  assumes "combine_dseg_labels l dseg_input gr output_path s pz out_dtype h = Inr (res, h')"
    and "load_input l dseg_input h = Inr (img, h0)"
    and "build_mapping gr s = Inr (m, ws)"
  shows "dataobj (image res) = next_addr h0"
    and "cells h' (next_addr h0) =
           relabelled l (select_dtype m pz out_dtype) pz m
             (map (to_int32 l (header img)) (cells h0 (dataobj img)))
             (replicate (length (cells h0 (dataobj img))) 0)"
    and "a \<noteq> next_addr h0 \<Longrightarrow> cells h' a = cells h0 a"
    and "affine (image res) = affine img"
    and "header (image res) = (header img)\<lparr>data_dtype := select_dtype m pz out_dtype\<rparr>"
proof -
  let ?data = "map (to_int32 l (header img)) (cells h0 (dataobj img))"
  let ?h1 = "snd (heap_alloc (replicate (length (cells h0 (dataobj img))) 0) h0)"
  let ?dt = "select_dtype m pz out_dtype"
  from assms(1) obtain img' h0' m' ws' where
    a: "load_input l dseg_input h = Inr (img', h0')" and b: "build_mapping gr s = Inr (m', ws')"
    and c: "apply_mapping l (select_dtype m' pz out_dtype) pz m'
           (map (to_int32 l (header img')) (cells h0' (dataobj img'))) (next_addr h0')
           (snd (heap_alloc (replicate (length (cells h0' (dataobj img'))) 0) h0')) = Inr h'"
    and d: "image res = \<lparr>dataobj = next_addr h0', affine = affine img',
                       header = (header img')\<lparr>data_dtype := select_dtype m' pz out_dtype\<rparr>\<rparr>"
    by (rule combine_dseg_labels_Inr)
  from a b assms(2,3) have eq: "img' = img" "h0' = h0" "m' = m" by simp_all
  have len: "length (cells ?h1 (next_addr h0)) = length ?data"
    by (simp add: cells_heap_alloc)
  from c have ap: "apply_mapping l ?dt pz m ?data (next_addr h0) ?h1 = Inr h'"
    by (simp add: eq)
  have h': "h' = heap_write (next_addr h0)
                   (relabelled l ?dt pz m ?data (cells ?h1 (next_addr h0))) ?h1"
    using ap unfolding apply_mapping_closed [OF len] by (simp split: if_splits)
  show "dataobj (image res) = next_addr h0" by (simp add: d eq)
  show "affine (image res) = affine img" by (simp add: d eq)
  show "header (image res) = (header img)\<lparr>data_dtype := ?dt\<rparr>" by (simp add: d eq)
  show "cells h' (next_addr h0) =
           relabelled l ?dt pz m ?data (replicate (length (cells h0 (dataobj img))) 0)"
    by (simp add: h' cells_heap_write cells_heap_alloc)
  show "cells h' a = cells h0 a" if "a \<noteq> next_addr h0"
    using that by (simp add: h' cells_heap_write cells_heap_alloc)
qed

text \<open>
  Claim C9. For an empty grouping, whether an empty sequence or an empty mapping, the
  built dictionary is empty and no warning is recorded, the needed maximum is at most 1,
  the dtype selected when none is given is \<open>int8\<close>, and the call on an image in memory,
  with no output path, returns: its result is a new array of the length of the input
  array in which every voxel is 0, whatever the input voxels are.
\<close>

theorem empty_grouping:
  "build_mapping (GroupSeq []) start_label = Inr ([], [])
   \<and> build_mapping (GroupMap []) start_label = Inr ([], [])
   \<and> needed_max [] pz \<le> 1
   \<and> select_dtype [] pz None = Int8
   \<and> (gr = GroupSeq [] \<or> gr = GroupMap [] \<longrightarrow>
        (\<exists>h'. combine_dseg_labels l (DsegImage img) gr None start_label pz None h
                 = Inr (\<lparr>image = \<lparr>dataobj = next_addr h, affine = affine img,
                                   header = (header img)\<lparr>data_dtype := Int8\<rparr>\<rparr>,
                         warnings = [], saved = None\<rparr>, h')
            \<and> cells h' (next_addr h) = replicate (length (cells h (dataobj img))) 0))"
proof -
  have a: "build_mapping (GroupSeq []) start_label = Inr ([], [])"
    and b: "build_mapping (GroupMap []) start_label = Inr ([], [])"
    by (simp_all add: build_mapping_def)
  have c: "needed_max [] pz \<le> 1" by (simp add: needed_max_def)
  have d: "select_dtype [] pz None = Int8"
    by (simp add: select_dtype_def needed_max_def int8_max_def)
  have e: "\<exists>h'. combine_dseg_labels l (DsegImage img) gr None start_label pz None h
                 = Inr (\<lparr>image = \<lparr>dataobj = next_addr h, affine = affine img,
                                   header = (header img)\<lparr>data_dtype := Int8\<rparr>\<rparr>,
                         warnings = [], saved = None\<rparr>, h')
            \<and> cells h' (next_addr h) = replicate (length (cells h (dataobj img))) 0"
    if "gr = GroupSeq [] \<or> gr = GroupMap []"
  proof -
    from that a b have g: "build_mapping gr start_label = Inr ([], [])" by auto
    show ?thesis
      by (simp add: combine_dseg_labels_def load_input_def g d save_output_def heap_alloc_def)
  qed
  from a b c d e show ?thesis by blast
qed

text \<open>
  Claim C8. When the call returns, every array that was in the store once the input was
  loaded is what it was, the array of the input image among them; the output image has an
  array of its own, at an address that was free. The affine of the output is the affine
  of the input, and its header is the header of the input in every field but the data
  dtype, which \<open>set_data_dtype\<close> (line 155) sets to the output dtype. For an image
  handed in in memory, loading changes nothing in the store.
\<close>

theorem input_untouched_metadata_kept:
  "combine_dseg_labels l dseg_input gr output_path start_label pz out_dtype h = Inr (res, h')
   \<and> load_input l dseg_input h = Inr (img, h0)
   \<longrightarrow> (\<forall>a. a < next_addr h0 \<longrightarrow> cells h' a = cells h0 a)
       \<and> (dataobj img < next_addr h0
            \<longrightarrow> dataobj (image res) \<noteq> dataobj img \<and> cells h' (dataobj img) = cells h0 (dataobj img))
       \<and> (dseg_input = DsegImage img \<longrightarrow> h0 = h)
       \<and> affine (image res) = affine img
       \<and> spatial (header (image res)) = spatial (header img)
       \<and> header (image res) = (header img)\<lparr>data_dtype := data_dtype (header (image res))\<rparr>"
proof (intro impI, elim conjE)
  assume run: "combine_dseg_labels l dseg_input gr output_path start_label pz out_dtype h
                 = Inr (res, h')"
    and ld: "load_input l dseg_input h = Inr (img, h0)"
  from run obtain m ws where b: "build_mapping gr start_label = Inr (m, ws)"
    by (rule combine_dseg_labels_Inr)
  note st = combine_dseg_labels_store [OF run ld b]
  have frame: "\<forall>a. a < next_addr h0 \<longrightarrow> cells h' a = cells h0 a"
    using st(3) by simp
  have same: "dseg_input = DsegImage img \<longrightarrow> h0 = h"
    using ld by (auto simp add: load_input_def)
  from frame same st(1,4,5)
  show "(\<forall>a. a < next_addr h0 \<longrightarrow> cells h' a = cells h0 a)
       \<and> (dataobj img < next_addr h0
            \<longrightarrow> dataobj (image res) \<noteq> dataobj img \<and> cells h' (dataobj img) = cells h0 (dataobj img))
       \<and> (dseg_input = DsegImage img \<longrightarrow> h0 = h)
       \<and> affine (image res) = affine img
       \<and> spatial (header (image res)) = spatial (header img)
       \<and> header (image res) = (header img)\<lparr>data_dtype := data_dtype (header (image res))\<rparr>"
    by simp
qed

subsection \<open>Background and unmapped voxels\<close>

lemma map_of_active_zero: "map_of (rev (active True m)) 0 = None"
  by (auto simp add: map_of_eq_None_iff active_def)

lemma map_of_active_unmapped:
  "k \<notin> fst ` set m \<Longrightarrow> map_of (rev (active pz m)) k = None"
  by (auto simp add: map_of_eq_None_iff active_def)

lemma apply_mapping_Inr:
  assumes "apply_mapping l dt pz m data out h = Inr h'" and "length (cells h out) = length data"
  shows "cells h' out = relabelled l dt pz m data (cells h out)"
  using assms(1) unfolding apply_mapping_closed [OF assms(2)]
  by (auto simp add: cells_heap_write split: if_splits)

text \<open>
  Claim C2. With \<open>preserve_zero\<close> true, a voxel whose converted input value is 0 is 0 in
  the output of the call, whatever the groups are, also when the dictionary maps 0 to
  another label. At the level of the loop, for any dictionary: such a voxel of the output
  array is left as it was, and an entry with key 0 is skipped, the loop doing with it
  exactly what it does without it.
\<close>

theorem zero_preserved:
  "(combine_dseg_labels l dseg_input gr output_path start_label True out_dtype h = Inr (res, h')
      \<and> load_input l dseg_input h = Inr (img, h0)
      \<and> i < length (cells h0 (dataobj img))
      \<and> sint (to_int32 l (header img) (cells h0 (dataobj img) ! i)) = 0
      \<longrightarrow> cells h' (dataobj (image res)) ! i = 0)
   \<and> (apply_mapping l dt True m data out h = Inr h'
      \<and> length (cells h out) = length data \<and> i < length data \<and> sint (data ! i) = 0
      \<longrightarrow> cells h' out ! i = cells h out ! i)
   \<and> apply_mapping l dt True ((0, v) # m) data out h = apply_mapping l dt True m data out h"
proof (intro conjI impI)
  assume asm: "combine_dseg_labels l dseg_input gr output_path start_label True out_dtype h
                 = Inr (res, h')
      \<and> load_input l dseg_input h = Inr (img, h0)
      \<and> i < length (cells h0 (dataobj img))
      \<and> sint (to_int32 l (header img) (cells h0 (dataobj img) ! i)) = 0"
  then have run: "combine_dseg_labels l dseg_input gr output_path start_label True out_dtype h
                 = Inr (res, h')"
    and ld: "load_input l dseg_input h = Inr (img, h0)"
    and i: "i < length (cells h0 (dataobj img))"
    and z: "sint (to_int32 l (header img) (cells h0 (dataobj img) ! i)) = 0"
    by simp_all
  from run obtain m' ws where b: "build_mapping gr start_label = Inr (m', ws)"
    by (rule combine_dseg_labels_Inr)
  note st = combine_dseg_labels_store [OF run ld b]
  show "cells h' (dataobj (image res)) ! i = 0"
    using i z by (simp add: st(1,2) relabelled_nth map_of_active_zero)
next
  assume asm: "apply_mapping l dt True m data out h = Inr h'
      \<and> length (cells h out) = length data \<and> i < length data \<and> sint (data ! i) = 0"
  then have "cells h' out = relabelled l dt True m data (cells h out)"
    by (simp add: apply_mapping_Inr)
  with asm show "cells h' out ! i = cells h out ! i"
    by (simp add: relabelled_nth map_of_active_zero)
next
  show "apply_mapping l dt True ((0, v) # m) data out h = apply_mapping l dt True m data out h"
    by simp
qed

text \<open>An error of a call on an image in memory does not come from the store.\<close>

lemma combine_dseg_labels_error:
  "combine_dseg_labels l (DsegImage img) gr output_path s pz out_dtype h = Inl e \<longleftrightarrow>
     (case build_mapping gr s of
        Inl e' \<Rightarrow> e = e'
      | Inr (m, ws) \<Rightarrow>
          if \<exists>(k, v) \<in> set (active pz m). np_store l (select_dtype m pz out_dtype) v = None
          then e = StoreOverflow
          else save_output l output_path = Inl e)"
proof (cases "build_mapping gr s")
  case (Inl e')
  then show ?thesis by (auto simp add: combine_dseg_labels_def load_input_def)
next
  case (Inr st)
  obtain m ws where st: "st = (m, ws)" by (cases st)
  define data where "data = map (to_int32 l (header img)) (cells h (dataobj img))"
  define h1 where "h1 = snd (heap_alloc (replicate (length data) 0) h)"
  let ?dt = "select_dtype m pz out_dtype"
  have len: "length (cells h1 (next_addr h)) = length data"
    by (simp add: h1_def cells_heap_alloc)
  have fs: "heap_alloc (replicate (length (cells h (dataobj img))) 0) h = (next_addr h, h1)"
    by (simp add: h1_def data_def heap_alloc_def)
  have comb: "combine_dseg_labels l (DsegImage img) gr output_path s pz out_dtype h =
      (case apply_mapping l ?dt pz m data (next_addr h) h1 of
         Inl e \<Rightarrow> Inl e
       | Inr h2 \<Rightarrow>
           (case save_output l output_path of
              Inl e \<Rightarrow> Inl e
            | Inr sv \<Rightarrow>
                Inr (\<lparr>image = \<lparr>dataobj = next_addr h, affine = affine img,
                                 header = (header img)\<lparr>data_dtype := ?dt\<rparr>\<rparr>,
                       warnings = ws, saved = sv\<rparr>, h2)))"
    unfolding combine_dseg_labels_def load_input_def Let_def
    by (simp add: Inr st data_def [symmetric] fs)
  show ?thesis
    unfolding comb apply_mapping_closed [OF len]
    by (auto simp add: Inr st split: sum.splits)
qed

text \<open>
  Claim C4. A voxel whose converted input value is not a key of the dictionary is 0 in
  the output of the call. The voxel values raise nothing: if the call on an image in
  memory raises in one store, it raises the same error in every other store, so with
  every other content of the voxel array.
\<close>

theorem unmapped_voxels_zero:
  "(combine_dseg_labels l dseg_input gr output_path start_label pz out_dtype h = Inr (res, h')
      \<and> load_input l dseg_input h = Inr (img, h0)
      \<and> build_mapping gr start_label = Inr (m, ws)
      \<and> i < length (cells h0 (dataobj img))
      \<and> sint (to_int32 l (header img) (cells h0 (dataobj img) ! i)) \<notin> fst ` set m
      \<longrightarrow> cells h' (dataobj (image res)) ! i = 0)
   \<and> (combine_dseg_labels l (DsegImage img) gr output_path start_label pz out_dtype h = Inl e
      \<longrightarrow> combine_dseg_labels l (DsegImage img) gr output_path start_label pz out_dtype h2 = Inl e)"
proof (intro conjI impI)
  assume asm: "combine_dseg_labels l dseg_input gr output_path start_label pz out_dtype h
                 = Inr (res, h')
      \<and> load_input l dseg_input h = Inr (img, h0)
      \<and> build_mapping gr start_label = Inr (m, ws)
      \<and> i < length (cells h0 (dataobj img))
      \<and> sint (to_int32 l (header img) (cells h0 (dataobj img) ! i)) \<notin> fst ` set m"
  then have run: "combine_dseg_labels l dseg_input gr output_path start_label pz out_dtype h
                 = Inr (res, h')"
    and ld: "load_input l dseg_input h = Inr (img, h0)"
    and b: "build_mapping gr start_label = Inr (m, ws)"
    and i: "i < length (cells h0 (dataobj img))"
    and u: "sint (to_int32 l (header img) (cells h0 (dataobj img) ! i)) \<notin> fst ` set m"
    by simp_all
  note st = combine_dseg_labels_store [OF run ld b]
  show "cells h' (dataobj (image res)) ! i = 0"
    using i u by (simp add: st(1,2) relabelled_nth map_of_active_unmapped)
next
  assume "combine_dseg_labels l (DsegImage img) gr output_path start_label pz out_dtype h = Inl e"
  then show "combine_dseg_labels l (DsegImage img) gr output_path start_label pz out_dtype h2
               = Inl e"
    by (simp only: combine_dseg_labels_error)
qed

subsection \<open>Order of the loop and the converted values\<close>

lemma seq_group_distinct:
  "seq_group new_label grp (m, ws) = Inr (m', ws') \<Longrightarrow> distinct (map fst m)
     \<Longrightarrow> distinct (map fst m')"
proof (induction grp arbitrary: m ws)
  case Nil
  then show ?case by simp
next
  case (Cons lab grp)
  then show ?case
    by (auto split: sum.splits option.splits intro: distinct_dict_set)
qed

lemma seq_groups_distinct:
  "seq_groups s idx gs (m, ws) = Inr (m', ws') \<Longrightarrow> distinct (map fst m)
     \<Longrightarrow> distinct (map fst m')"
proof (induction gs arbitrary: idx m ws)
  case Nil
  then show ?case by simp
next
  case (Cons g gs)
  from Cons.prems(1) obtain m1 ws1 where
    a: "seq_group (s + int idx) g (m, ws) = Inr (m1, ws1)"
    and b: "seq_groups s (Suc idx) gs (m1, ws1) = Inr (m', ws')"
    by (auto split: sum.splits)
  from seq_group_distinct [OF a Cons.prems(2)] have "distinct (map fst m1)" .
  with b show ?case by (rule Cons.IH)
qed

lemma map_entry_distinct:
  "map_entry new_label originals (m, ws) = Inr (m', ws') \<Longrightarrow> distinct (map fst m)
     \<Longrightarrow> distinct (map fst m')"
proof (induction originals arbitrary: m ws)
  case Nil
  then show ?case by simp
next
  case (Cons lab originals)
  then show ?case
    by (auto split: sum.splits option.splits intro: distinct_dict_set)
qed

lemma map_entries_distinct:
  "map_entries es (m, ws) = Inr (m', ws') \<Longrightarrow> distinct (map fst m)
     \<Longrightarrow> distinct (map fst m')"
proof (induction es arbitrary: m ws)
  case Nil
  then show ?case by simp
next
  case (Cons e es)
  obtain new_label originals where e: "e = (new_label, originals)" by (cases e)
  from Cons.prems(1) obtain m1 ws1 where
    a: "map_entry new_label originals (m, ws) = Inr (m1, ws1)"
    and b: "map_entries es (m1, ws1) = Inr (m', ws')"
    by (auto simp add: e split: sum.splits)
  from map_entry_distinct [OF a Cons.prems(2)] have "distinct (map fst m1)" .
  with b show ?case by (rule Cons.IH)
qed

lemma build_mapping_distinct:
  assumes "build_mapping gr s = Inr (m, ws)"
  shows "distinct (map fst m)"
proof (cases gr)
  case (GroupSeq gs)
  with assms have "seq_groups s 0 gs ([], []) = Inr (m, ws)" by (simp add: build_mapping_def)
  then show ?thesis by (rule seq_groups_distinct) simp
next
  case (GroupMap es)
  with assms have "map_entries es ([], []) = Inr (m, ws)" by (simp add: build_mapping_def)
  then show ?thesis by (rule map_entries_distinct) simp
qed

lemma distinct_active: "distinct (map fst m) \<Longrightarrow> distinct (map fst (active pz m))"
  by (simp add: active_def distinct_map_filter)

lemma map_of_rev_distinct:
  assumes "distinct (map fst m)"
  shows "map_of (rev m) = map_of m"
proof -
  have "distinct (map fst (rev m))" using assms by (simp add: rev_map [symmetric])
  then show ?thesis using assms by (simp add: map_of_inject_set)
qed

lemma match_at_most_once:
  "distinct (map fst m) \<Longrightarrow> length (filter (\<lambda>(k, v). x = k) m) \<le> 1"
proof (induction m)
  case Nil
  then show ?case by simp
next
  case (Cons p m)
  obtain k v where p: "p = (k, v)" by (cases p)
  show ?case
  proof (cases "x = k")
    case True
    with Cons.prems have "filter (\<lambda>(k', v). x = k') m = []"
      by (force simp add: p filter_empty_conv)
    with True show ?thesis by (simp add: p)
  next
    case False
    with Cons show ?thesis by (simp add: p)
  qed
qed

text \<open>
  Claim C7. The dictionary the call builds has distinct keys, so a voxel value is matched
  by at most one of its pairs, and the loop over any rearrangement of its pairs returns
  the same store (or raises the same error) as the loop over the pairs in their order.
\<close>

theorem iteration_order_irrelevant:
  "build_mapping gr start_label = Inr (m, ws) \<and> mset m' = mset m
     \<and> length (cells h out) = length data
   \<longrightarrow> apply_mapping l dt pz m' data out h = apply_mapping l dt pz m data out h
       \<and> distinct (map fst m)
       \<and> length (filter (\<lambda>(k, v). sint d = k) m) \<le> 1"
proof (intro impI, elim conjE)
  assume b: "build_mapping gr start_label = Inr (m, ws)" and p: "mset m' = mset m"
    and len: "length (cells h out) = length data"
  have d: "distinct (map fst m)" using b by (rule build_mapping_distinct)
  have "mset (map fst m') = mset (map fst m)" using p by (metis mset_map)
  with d have d': "distinct (map fst m')" by (metis mset_eq_imp_distinct_iff)
  have s: "set m' = set m" using p by (rule mset_eq_setD)
  then have sa: "set (active pz m') = set (active pz m)" by (simp add: active_def)
  have "map_of (active pz m') = map_of (active pz m)"
    using sa distinct_active [OF d] distinct_active [OF d'] by (simp add: map_of_inject_set)
  then have mo: "map_of (rev (active pz m')) = map_of (rev (active pz m))"
    by (simp add: map_of_rev_distinct distinct_active d d')
  have r: "relabelled l dt pz m' data (cells h out) = relabelled l dt pz m data (cells h out)"
    by (simp add: relabelled_def mo)
  have "apply_mapping l dt pz m' data out h = apply_mapping l dt pz m data out h"
    unfolding apply_mapping_closed [OF len] sa r ..
  with d match_at_most_once [OF d, of "sint d"]
  show "apply_mapping l dt pz m' data out h = apply_mapping l dt pz m data out h
       \<and> distinct (map fst m)
       \<and> length (filter (\<lambda>(k, v). sint d = k) m) \<le> 1"
    by simp
qed











subsection \<open>Runs on concrete volumes\<close>

lemma f32_of_int_small:
  assumes "\<bar>v\<bar> < 16777216"
  shows "f32_of_int v = F32 (of_int v)"
proof -
  have e: "f32_shift \<bar>v\<bar> = 0"
    using assms by (simp add: f32_shift.simps [of "\<bar>v\<bar>"])
  have s: "(if v < 0 then - \<bar>v\<bar> else \<bar>v\<bar>) = v" by simp
  have b: "\<not> 340282346638528859811704183484516925440 < \<bar>v\<bar>"
    using assms by simp
  show ?thesis
    unfolding f32_of_int_def Let_def e by (simp add: s b)
qed

lemma conv0: "\<bar>v\<bar> < 16777216 \<Longrightarrow> to_int32 lib0 hdr v = word_of_int v"
  by (auto simp add: to_int32_def astype_int32_def lib0_def f32_of_int_small)



lemma build0: "build_mapping groups0 1 = Inr ([(17, 1), (53, 1), (0, 5)], [])"
  by (simp add: groups0_def build_mapping_def dict_find_def)

lemma select0: "select_dtype [(17, 1), (53, 1), (0, 5)] True None = Int8"
  by (simp add: select_dtype_def needed_max_def int8_max_def)

lemma load0: "load_input lib0 (DsegImage img0) heap0 = Inr (img0, heap0)"
  by (simp add: load_input_def)

lemma data0: "map (to_int32 lib0 (header img0)) (cells heap0 (dataobj img0)) = [0, 17, 53, 4]"
  by (simp add: img0_def heap0_def conv0)

lemma combine_dseg_labels_image:
  assumes "build_mapping gr s = Inr (m, ws)"
  shows "combine_dseg_labels l (DsegImage img) gr output_path s pz out_dtype h =
      (if \<exists>(k, v) \<in> set (active pz m). np_store l (select_dtype m pz out_dtype) v = None
       then Inl StoreOverflow
       else (case save_output l output_path of
               Inl e \<Rightarrow> Inl e
             | Inr sv \<Rightarrow>
                 Inr (\<lparr>image = \<lparr>dataobj = next_addr h, affine = affine img,
                         header = (header img)\<lparr>data_dtype := select_dtype m pz out_dtype\<rparr>\<rparr>,
                       warnings = ws, saved = sv\<rparr>,
                      heap_write (next_addr h)
                        (relabelled l (select_dtype m pz out_dtype) pz m
                           (map (to_int32 l (header img)) (cells h (dataobj img)))
                           (replicate (length (cells h (dataobj img))) 0))
                        (snd (heap_alloc (replicate (length (cells h (dataobj img))) 0) h)))))"
proof -
  define data where "data = map (to_int32 l (header img)) (cells h (dataobj img))"
  define h1 where "h1 = snd (heap_alloc (replicate (length data) 0) h)"
  let ?dt = "select_dtype m pz out_dtype"
  have len: "length (cells h1 (next_addr h)) = length data"
    by (simp add: h1_def cells_heap_alloc)
  have c1: "cells h1 (next_addr h) = replicate (length (cells h (dataobj img))) 0"
    by (simp add: h1_def data_def cells_heap_alloc)
  have fs: "heap_alloc (replicate (length (cells h (dataobj img))) 0) h = (next_addr h, h1)"
    by (simp add: h1_def data_def heap_alloc_def)
  have comb: "combine_dseg_labels l (DsegImage img) gr output_path s pz out_dtype h =
      (case apply_mapping l ?dt pz m data (next_addr h) h1 of
         Inl e \<Rightarrow> Inl e
       | Inr h2 \<Rightarrow>
           (case save_output l output_path of
              Inl e \<Rightarrow> Inl e
            | Inr sv \<Rightarrow>
                Inr (\<lparr>image = \<lparr>dataobj = next_addr h, affine = affine img,
                                 header = (header img)\<lparr>data_dtype := ?dt\<rparr>\<rparr>,
                       warnings = ws, saved = sv\<rparr>, h2)))"
    unfolding combine_dseg_labels_def load_input_def Let_def
    by (simp add: assms data_def [symmetric] fs)
  show ?thesis
    unfolding comb apply_mapping_closed [OF len] c1
    by (simp add: fs data_def split: sum.splits)
qed

lemma run0:
  "combine_dseg_labels lib0 (DsegImage img0) groups0 None 1 True None heap0 = Inr (res0, heap1)"
proof -
  have len: "length (cells heap0 (dataobj img0)) = 4" by (simp add: heap0_def img0_def)
  have r: "relabelled lib0 Int8 True [(17, 1), (53, 1), (0, 5)] [0, 17, 53, 4] (replicate 4 0)
             = [0, 1, 1, 0]"
    by (simp add: relabelled_def active_def lib0_def np2_store_def numeral_eq_Suc)
  have ov: "\<not> (\<exists>(k, v) \<in> set (active True [(17, 1), (53, 1), (0, 5)]).
                 np_store lib0 Int8 v = None)"
    by (simp add: active_def lib0_def np2_store_def)
  have hp: "heap_write (next_addr heap0) [0, 1, 1, 0] (snd (heap_alloc (replicate 4 0) heap0))
              = heap1"
    by (simp add: heap_write_def heap_alloc_def heap1_def heap0_def)
  have sv: "save_output lib0 None = Inr None" by (simp add: save_output_def)
  show ?thesis
    unfolding combine_dseg_labels_image [OF build0] select0 data0 len r hp
    using ov by (simp add: sv res0_def img0_def heap0_def)
qed

theorem zero_preserved_witness:
  "combine_dseg_labels lib0 (DsegImage img0) groups0 None 1 True None heap0 = Inr (res0, heap1)
   \<and> load_input lib0 (DsegImage img0) heap0 = Inr (img0, heap0)
   \<and> 0 < length (cells heap0 (dataobj img0))
   \<and> sint (to_int32 lib0 (header img0) (cells heap0 (dataobj img0) ! 0)) = 0
   \<and> map_of [(17, 1), (53, 1), (0, 5 :: int)] (0 :: int) = Some 5
   \<and> cells heap1 (dataobj (image res0)) ! 0 = 0"
proof -
  have a: "0 < length (cells heap0 (dataobj img0))" by (simp add: heap0_def img0_def)
  have b: "sint (to_int32 lib0 (header img0) (cells heap0 (dataobj img0) ! 0)) = 0"
    by (simp add: heap0_def img0_def conv0)
  from zero_preserved [where l = lib0 and dseg_input = "DsegImage img0" and gr = groups0
      and output_path = None and start_label = 1 and out_dtype = None and h = heap0
      and res = res0 and h' = heap1 and img = img0 and ?h0.0 = heap0 and i = 0]
    run0 load0 a b
  show ?thesis by simp
qed

lemma cell0: "cells heap0 (dataobj img0) = [0, 17, 53, 4]"
  by (simp add: heap0_def img0_def)

lemma cell1: "cells heap1 (dataobj (image res0)) = [0, 1, 1, 0]"
  by (simp add: heap1_def res0_def)

theorem unmapped_voxels_zero_witness:
  "combine_dseg_labels lib0 (DsegImage img0) groups0 None 1 True None heap0 = Inr (res0, heap1)
   \<and> load_input lib0 (DsegImage img0) heap0 = Inr (img0, heap0)
   \<and> build_mapping groups0 1 = Inr ([(17, 1), (53, 1), (0, 5)], [])
   \<and> 3 < length (cells heap0 (dataobj img0))
   \<and> sint (to_int32 lib0 (header img0) (cells heap0 (dataobj img0) ! 3))
        \<notin> fst ` set [(17, 1), (53, 1), (0, 5 :: int)]
   \<and> cells heap1 (dataobj (image res0)) ! 3 = 0
   \<and> combine_dseg_labels lib0 (DsegImage img0) (GroupSeq [[PyInt 17]]) None 200 True
         (Some Int8) heap0 = Inl StoreOverflow
   \<and> combine_dseg_labels lib0 (DsegImage img0) (GroupSeq [[PyInt 17]]) None 200 True
         (Some Int8) heap1 = Inl StoreOverflow"
proof -
  have a: "3 < length (cells heap0 (dataobj img0))" by (simp add: cell0)
  have b: "sint (to_int32 lib0 (header img0) (cells heap0 (dataobj img0) ! 3))
             \<notin> fst ` set [(17, 1), (53, 1), (0, 5 :: int)]"
    by (simp add: cell0 conv0)
  have bm: "build_mapping (GroupSeq [[PyInt 17]]) 200 = Inr ([(17, 200)], [])"
    by (simp add: build_mapping_def)
  have c: "combine_dseg_labels lib0 (DsegImage img0) (GroupSeq [[PyInt 17]]) None 200 True
             (Some Int8) heap0 = Inl StoreOverflow"
    unfolding combine_dseg_labels_image [OF bm]
    by (simp add: select_dtype_def active_def lib0_def np2_store_def)
  note t = unmapped_voxels_zero [where l = lib0 and gr = groups0 and output_path = None
      and start_label = 1 and pz = True and out_dtype = None and h = heap0 and res = res0
      and h' = heap1 and img = img0 and ?h0.0 = heap0 and i = 3
      and m = "[(17, 1), (53, 1), (0, 5)]" and ws = "[]" and dseg_input = "DsegImage img0"]
  from t run0 load0 build0 a b
  have d: "cells heap1 (dataobj (image res0)) ! 3 = 0" by blast
  from unmapped_voxels_zero [where l = lib0 and gr = "GroupSeq [[PyInt 17]]"
      and output_path = None and start_label = 200 and pz = True and out_dtype = "Some Int8"
      and h = heap0 and img = img0 and e = StoreOverflow and ?h2.0 = heap1] c
  have e: "combine_dseg_labels lib0 (DsegImage img0) (GroupSeq [[PyInt 17]]) None 200 True
             (Some Int8) heap1 = Inl StoreOverflow"
    by blast
  from run0 load0 build0 a b c d e show ?thesis by blast
qed

theorem iteration_order_irrelevant_witness:
  "build_mapping groups0 1 = Inr ([(17, 1), (53, 1), (0, 5)], [])
   \<and> mset [(0, 5), (53, 1), (17, 1 :: int)] = mset [(17, 1), (53, 1), (0 :: int, 5)]
   \<and> length (cells heap1 1) = length [0, 17, 53, 4 :: int32]
   \<and> apply_mapping lib0 Int8 True [(0, 5), (53, 1), (17, 1)] [0, 17, 53, 4] 1 heap1
        = apply_mapping lib0 Int8 True [(17, 1), (53, 1), (0, 5)] [0, 17, 53, 4] 1 heap1
   \<and> distinct (map fst [(17, 1), (53, 1), (0 :: int, 5 :: int)])
   \<and> length (filter (\<lambda>(k, v). sint (17 :: int32) = k) [(17, 1), (53, 1), (0, 5 :: int)]) \<le> 1"
proof -
  have a: "mset [(0, 5), (53, 1), (17, 1 :: int)] = mset [(17, 1), (53, 1), (0 :: int, 5)]"
    by simp
  have b: "length (cells heap1 1) = length [0, 17, 53, 4 :: int32]"
    by (simp add: heap1_def)
  from iteration_order_irrelevant [where gr = groups0 and start_label = 1
      and m = "[(17, 1), (53, 1), (0, 5)]" and ws = "[]" and m' = "[(0, 5), (53, 1), (17, 1)]"
      and h = heap1 and out = 1 and data = "[0, 17, 53, 4]" and l = lib0 and dt = Int8
      and pz = True and d = 17] build0 a b
  show ?thesis by blast
qed

theorem input_untouched_metadata_kept_witness:
  "combine_dseg_labels lib0 (DsegImage img0) groups0 None 1 True None heap0 = Inr (res0, heap1)
   \<and> load_input lib0 (DsegImage img0) heap0 = Inr (img0, heap0)
   \<and> dataobj img0 < next_addr heap0
   \<and> dataobj (image res0) \<noteq> dataobj img0
   \<and> cells heap1 (dataobj img0) = cells heap0 (dataobj img0)
   \<and> affine (image res0) = affine img0
   \<and> spatial (header (image res0)) = spatial (header img0)
   \<and> data_dtype (header img0) = Int16 \<and> data_dtype (header (image res0)) = Int8"
proof -
  have a: "dataobj img0 < next_addr heap0" by (simp add: img0_def heap0_def)
  have b: "data_dtype (header img0) = Int16 \<and> data_dtype (header (image res0)) = Int8"
    by (simp add: img0_def res0_def)
  from input_untouched_metadata_kept [where l = lib0 and dseg_input = "DsegImage img0"
      and gr = groups0 and output_path = None and start_label = 1 and pz = True
      and out_dtype = None and h = heap0 and res = res0 and h' = heap1 and img = img0
      and ?h0.0 = heap0] run0 load0 a b
  show ?thesis by blast
qed

theorem empty_grouping_witness:
  "\<exists>h'. combine_dseg_labels lib0 (DsegImage img0) (GroupSeq []) None 1 True None heap0
           = Inr (\<lparr>image = \<lparr>dataobj = next_addr heap0, affine = affine img0,
                             header = (header img0)\<lparr>data_dtype := Int8\<rparr>\<rparr>,
                   warnings = [], saved = None\<rparr>, h')
         \<and> cells h' (next_addr heap0) = [0, 0, 0, 0]"
proof -
  have "replicate (length (cells heap0 (dataobj img0))) (0 :: int) = [0, 0, 0, 0]"
    by (simp add: cell0 numeral_eq_Suc)
  with empty_grouping [where gr = "GroupSeq []" and l = lib0 and img = img0
      and start_label = 1 and pz = True and h = heap0]
  show ?thesis by simp
qed




end
